theory Spec2Isabelle
  imports Main
begin

section \<open>Data model of \<^verbatim>\<open>libirc/irc.c\<close>\<close>

text \<open>
  Pointers are addresses: a \<^verbatim>\<open>const irc_server *\<close> is only ever compared with
  \<^verbatim>\<open>==\<close> and dereferenced for its fields, an \<^verbatim>\<open>irc_connection *\<close> is
  either \<^verbatim>\<open>NULL\<close> (\<open>None\<close>) or an address into the heap of connections.
\<close>

type_synonym server_ptr = nat
type_synonym conn_ptr = nat
type_synonym addrinfo = nat

record irc_server =
  name :: string
  host :: string
  port :: string
  secure :: bool

text \<open>
  Modelled from the spec: the structured message \<^verbatim>\<open>irc_msg\<close> is declared in the
  message-format layer, outside \<^verbatim>\<open>irc.c\<close>. The code reads its \<^verbatim>\<open>command\<close> field
  and builds one with \<^verbatim>\<open>irc_msg_new (prefix, command, nparams, params)\<close>.
\<close>

record irc_msg =
  msg_prefix :: "string option"
  command :: string
  params :: "string list"

text \<open>
  \<^verbatim>\<open>struct message_queue\<close> is a singly linked list of owned strings; the list of its
  \<^verbatim>\<open>message\<close> fields from the head on is the queue, \<^verbatim>\<open>NULL\<close> is \<open>[]\<close>.
\<close>

type_synonym message_queue = "string list"

text \<open>
  \<^verbatim>\<open>irc_connection\<close>. \<^verbatim>\<open>create_irc_connection\<close> leaves \<^verbatim>\<open>ev_is_running\<close>
  uninitialised, which is \<open>None\<close> here. The TLS session and credentials, the mutexes and
  the libev watchers carry no data of their own in this model: the session is bound to
  \<^verbatim>\<open>socket\<close>, and a watcher is identified by the connection that contains it.
\<close>

record irc_connection =
  server :: server_ptr
  socket :: int
  ev_is_running :: "bool option"
  read_queue :: message_queue
  write_queue :: message_queue

datatype transport = Plain int | Tls int

text \<open>
  What the code does to the outside world is recorded in order: diagnostics
  (\<^verbatim>\<open>log_info\<close>, \<^verbatim>\<open>log_debug\<close>, \<^verbatim>\<open>perror\<close>, \<^verbatim>\<open>puts\<close>; the message or
  format string, without its final newline), calls of the hook layer, and the system and
  GnuTLS calls with their results.
\<close>

datatype event =
    Diag string
  | Exec_hooks server_ptr string irc_msg
  | Send transport string
  | Sys_socket addrinfo int
  | Sys_connect int addrinfo int
  | Sys_close int
  | Gnutls_handshake int int
  | Gnutls_deinit int
  | Gnutls_certificate_free_credentials
  | Gnutls_global_deinit

text \<open>
  The global state: the static array \<^verbatim>\<open>conns[MAX_CONNECTIONS + 1]\<close>, the heap of
  \<^verbatim>\<open>malloc\<close>ed connections (\<open>None\<close>: not allocated, or freed), the servers owned by
  the caller, \<^verbatim>\<open>errno\<close>, and the record of effects.
\<close>

record irc_state =
  conns :: "conn_ptr option list"
  heap :: "conn_ptr \<Rightarrow> irc_connection option"
  servers :: "server_ptr \<Rightarrow> irc_server"
  errno :: int
  trace :: "event list"

text \<open>
  Undefined behaviour of the C program is a value: dereferencing \<^verbatim>\<open>NULL\<close>,
  dereferencing a freed connection, indexing outside an array. \<open>Exit\<close> is the end of
  the process through \<^verbatim>\<open>exit\<close> or \<^verbatim>\<open>err\<close>.
\<close>

datatype fault = Null_deref | Dangling_deref | Out_of_bounds

datatype 'a result = Ret 'a | Exit int | Fault fault

definition IRC_MESSAGE_SIZE :: int where
  "IRC_MESSAGE_SIZE = 8192"

definition MAX_CONNECTIONS :: nat where
  "MAX_CONNECTIONS = 10"

definition init_state :: "(server_ptr \<Rightarrow> irc_server) \<Rightarrow> int \<Rightarrow> irc_state" where
  "init_state srv e =
     \<lparr>conns = replicate (MAX_CONNECTIONS + 1) None, heap = (\<lambda>_. None),
      servers = srv, errno = e, trace = []\<rparr>"

definition emit :: "event \<Rightarrow> irc_state \<Rightarrow> irc_state" where
  "emit e st = st\<lparr>trace := trace st @ [e]\<rparr>"

definition strlen :: "string \<Rightarrow> nat" where
  "strlen str = length (takeWhile (\<lambda>c. c \<noteq> CHR 0x00) str)"

section \<open>Connection registry\<close>

text \<open>
  \<^verbatim>\<open>get_irc_server_connection\<close>: \<^verbatim>\<open>for (i = 0; conns[i] != NULL; i++)\<close>, comparing
  \<^verbatim>\<open>s == conns[i]->server\<close>. The loop has no bound of its own: it stops at the first
  \<^verbatim>\<open>NULL\<close> slot.
\<close>

function get_conn_loop :: "irc_state \<Rightarrow> server_ptr \<Rightarrow> nat \<Rightarrow> conn_ptr option result" where
  "get_conn_loop st s i =
     (if length (conns st) \<le> i then Fault Out_of_bounds
      else case conns st ! i of
        None \<Rightarrow> Ret None
      | Some p \<Rightarrow>
          (case heap st p of
             None \<Rightarrow> Fault Dangling_deref
           | Some c \<Rightarrow> if s = server c then Ret (Some p) else get_conn_loop st s (Suc i)))"
  by pat_completeness auto
termination
  by (relation "measure (\<lambda>(st, s, i). length (conns st) - i)") auto

declare get_conn_loop.simps [simp del]

definition get_irc_server_connection :: "irc_state \<Rightarrow> server_ptr \<Rightarrow> conn_ptr option result" where
  "get_irc_server_connection st s = get_conn_loop st s 0"

definition server_connected :: "irc_state \<Rightarrow> server_ptr \<Rightarrow> bool result" where
  "server_connected st s =
     (case get_irc_server_connection st s of
        Ret r \<Rightarrow> Ret (r \<noteq> None)
      | Exit n \<Rightarrow> Exit n
      | Fault f \<Rightarrow> Fault f)"

definition connections_cap_reached :: "irc_state \<Rightarrow> bool result" where
  "connections_cap_reached st =
     (if MAX_CONNECTIONS - 1 < length (conns st)
      then Ret (conns st ! (MAX_CONNECTIONS - 1) \<noteq> None)
      else Fault Out_of_bounds)"

text \<open>
  \<^verbatim>\<open>make_irc_connection_entry\<close>: the first \<^verbatim>\<open>NULL\<close> slot among the first
  \<^verbatim>\<open>MAX_CONNECTIONS\<close> takes the connection; \<^verbatim>\<open>-1\<close> when there is none.
\<close>

function make_entry_loop :: "irc_state \<Rightarrow> conn_ptr \<Rightarrow> nat \<Rightarrow> (int \<times> irc_state) result" where
  "make_entry_loop st c i =
     (if i < MAX_CONNECTIONS then
        (if length (conns st) \<le> i then Fault Out_of_bounds
         else if conns st ! i = None then Ret (0, st\<lparr>conns := (conns st)[i := Some c]\<rparr>)
         else make_entry_loop st c (Suc i))
      else Ret (- 1, st))"
  by pat_completeness auto
termination
  by (relation "measure (\<lambda>(st, c, i). MAX_CONNECTIONS - i)") auto

declare make_entry_loop.simps [simp del]

definition make_irc_connection_entry :: "irc_state \<Rightarrow> conn_ptr \<Rightarrow> (int \<times> irc_state) result" where
  "make_irc_connection_entry st c = make_entry_loop st c 0"

section \<open>Message dispatch\<close>

text \<open>
  \<^verbatim>\<open>handle_message\<close>. The parser \<^verbatim>\<open>ircmsg_parse\<close> belongs to the message-format
  layer and is a parameter: from the line and its length it gives the return code and the
  message it filled in; the code takes \<^verbatim>\<open>0\<close> for failure. \<^verbatim>\<open>exec_hooks\<close> belongs to
  the hook layer: each call is recorded.
\<close>

definition handle_message ::
  "(string \<Rightarrow> nat \<Rightarrow> int \<times> irc_msg) \<Rightarrow> irc_state \<Rightarrow> conn_ptr \<Rightarrow> string \<Rightarrow> irc_state result" where
  "handle_message ircmsg_parse st conn message =
     (let msg_len = strlen message in
      if msg_len = 0 then Ret st
      else
        (let (ret, parsed_msg) = ircmsg_parse message msg_len in
         if ret = 0 then Ret (emit (Diag ''ERROR: parsing message'') st)
         else
           (case heap st conn of
              None \<Rightarrow> Fault Dangling_deref
            | Some c \<Rightarrow>
                Ret (emit (Exec_hooks (server c) ''*'' parsed_msg)
                      (emit (Exec_hooks (server c) (command parsed_msg) parsed_msg) st)))))"

section \<open>Message queues and the outbound path\<close>

text \<open>
  Strings are C strings: the bytes before the first NUL. \<^verbatim>\<open>strdup\<close> copies exactly
  those. Allocations of strings and of queue nodes are taken to succeed, as the code
  takes them: it tests none of them.
\<close>

definition strdup :: "string \<Rightarrow> string" where
  "strdup str = takeWhile (\<lambda>c. c \<noteq> CHR 0x00) str"

text \<open>
  Appending a node: an empty queue becomes the new node; otherwise the walk
  \<^verbatim>\<open>for (mq = queue; mq->next != NULL; mq = mq->next)\<close> reaches the last node and links
  the new one behind it.
\<close>

fun mq_push :: "message_queue \<Rightarrow> string \<Rightarrow> message_queue" where
  "mq_push [] m = [m]"
| "mq_push (x # next) m = x # mq_push next m"

text \<open>
  \<^verbatim>\<open>irc_push_string\<close> uses the result of the lookup without testing it:
  \<^verbatim>\<open>&c->write_queue_mtx\<close> with \<^verbatim>\<open>c == NULL\<close> is the fault \<open>Null_deref\<close>.
\<close>

definition irc_push_string :: "irc_state \<Rightarrow> server_ptr \<Rightarrow> string \<Rightarrow> irc_state result" where
  "irc_push_string st s str =
     (case get_irc_server_connection st s of
        Exit n \<Rightarrow> Exit n
      | Fault f \<Rightarrow> Fault f
      | Ret None \<Rightarrow> Fault Null_deref
      | Ret (Some p) \<Rightarrow>
          (case heap st p of
             None \<Rightarrow> Fault Dangling_deref
           | Some c \<Rightarrow>
               Ret (st\<lparr>heap := (heap st)(p \<mapsto> c\<lparr>write_queue := mq_push (write_queue c) (strdup str)\<rparr>)\<rparr>)))"

text \<open>
  \<^verbatim>\<open>irc_push_message\<close>: the serializer (\<^verbatim>\<open>ircmsg_serialize_buffer_len\<close> and
  \<^verbatim>\<open>ircmsg_serialize\<close>) belongs to the message-format layer and is a parameter.
\<close>

definition irc_push_message ::
  "(irc_msg \<Rightarrow> string) \<Rightarrow> irc_state \<Rightarrow> server_ptr \<Rightarrow> irc_msg \<Rightarrow> irc_state result" where
  "irc_push_message serialize st s message = irc_push_string st s (serialize message)"

text \<open>
  \<^verbatim>\<open>irc_write_bytes\<close> looks the connection up again from the server and sends on the
  TLS session or on the socket. The transport is taken to accept all \<open>nbytes\<close>; no caller
  reads the return value.
\<close>

definition irc_write_bytes ::
  "irc_state \<Rightarrow> server_ptr \<Rightarrow> string \<Rightarrow> nat \<Rightarrow> (int \<times> irc_state) result" where
  "irc_write_bytes st s buf nbytes =
     (case get_irc_server_connection st s of
        Exit n \<Rightarrow> Exit n
      | Fault f \<Rightarrow> Fault f
      | Ret None \<Rightarrow> Ret (- 1, emit (Diag ''emptry connection'') st)
      | Ret (Some p) \<Rightarrow>
          (case heap st p of
             None \<Rightarrow> Fault Dangling_deref
           | Some c \<Rightarrow>
               (let st1 = emit (Diag ''sending command: %s'') st in
                if secure (servers st s)
                then Ret (int nbytes, emit (Send (Tls (socket c)) (take nbytes buf)) st1)
                else Ret (int nbytes, emit (Send (Plain (socket c)) (take nbytes buf)) st1))))"

lemma irc_write_bytes_heap:
  "irc_write_bytes st s buf nbytes = Ret (n, st') \<Longrightarrow> heap st' = heap st"
  by (auto simp: irc_write_bytes_def emit_def Let_def
           split: result.splits option.splits if_splits)

text \<open>
  \<^verbatim>\<open>irc_process_write_message_queue\<close>: while the queue of \<open>conn\<close> is not empty, write
  its first message and unlink it.
\<close>

function irc_process_write_message_queue :: "irc_state \<Rightarrow> conn_ptr \<Rightarrow> irc_state result" where
  "irc_process_write_message_queue st conn =
     (case heap st conn of
        None \<Rightarrow> Fault Dangling_deref
      | Some c \<Rightarrow>
          (case write_queue c of
             [] \<Rightarrow> Ret st
           | str # next \<Rightarrow>
               (case irc_write_bytes st (server c) str (strlen str) of
                  Exit n \<Rightarrow> Exit n
                | Fault f \<Rightarrow> Fault f
                | Ret (n, st') \<Rightarrow>
                    (case heap st' conn of
                       None \<Rightarrow> Fault Dangling_deref
                     | Some c' \<Rightarrow>
                         irc_process_write_message_queue
                           (st'\<lparr>heap := (heap st')(conn \<mapsto> c'\<lparr>write_queue := next\<rparr>)\<rparr>) conn))))"
  by pat_completeness auto
termination
  by (relation "measure (\<lambda>(st, conn). case heap st conn of None \<Rightarrow> 0 | Some c \<Rightarrow> length (write_queue c))")
     (auto dest: irc_write_bytes_heap)

declare irc_process_write_message_queue.simps [simp del]

lemma handle_message_heap:
  "handle_message ircmsg_parse st conn message = Ret st' \<Longrightarrow> heap st' = heap st"
  by (auto simp: handle_message_def emit_def Let_def split: prod.splits option.splits if_splits)

text \<open>\<^verbatim>\<open>irc_process_read_message_queue\<close>: the same walk over the inbound queue.\<close>

function irc_process_read_message_queue ::
  "(string \<Rightarrow> nat \<Rightarrow> int \<times> irc_msg) \<Rightarrow> irc_state \<Rightarrow> conn_ptr \<Rightarrow> irc_state result" where
  "irc_process_read_message_queue ircmsg_parse st conn =
     (case heap st conn of
        None \<Rightarrow> Fault Dangling_deref
      | Some c \<Rightarrow>
          (case read_queue c of
             [] \<Rightarrow> Ret st
           | message # next \<Rightarrow>
               (case handle_message ircmsg_parse st conn message of
                  Exit n \<Rightarrow> Exit n
                | Fault f \<Rightarrow> Fault f
                | Ret st' \<Rightarrow>
                    (case heap st' conn of
                       None \<Rightarrow> Fault Dangling_deref
                     | Some c' \<Rightarrow>
                         irc_process_read_message_queue ircmsg_parse
                           (st'\<lparr>heap := (heap st')(conn \<mapsto> c'\<lparr>read_queue := next\<rparr>)\<rparr>) conn))))"
  by pat_completeness auto
termination
  by (relation "measure (\<lambda>(pa, st, conn). case heap st conn of None \<Rightarrow> 0 | Some c \<Rightarrow> length (read_queue c))")
     (auto dest: handle_message_heap)

declare irc_process_read_message_queue.simps [simp del]

section \<open>Quit\<close>

text \<open>
  \<^verbatim>\<open>quit_irc_connection\<close>, statement by statement: look the connection up, build and
  enqueue the QUIT message, clear the running flag, release the TLS session and
  credentials, close the socket, free the connection. Nothing in it writes to the socket,
  and nothing in it touches \<^verbatim>\<open>conns\<close>.
\<close>

definition quit_msg :: irc_msg where
  "quit_msg = \<lparr>msg_prefix = None, command = ''QUIT'', params = [''go i must now'']\<rparr>"

definition quit_irc_connection ::
  "(irc_msg \<Rightarrow> string) \<Rightarrow> irc_state \<Rightarrow> server_ptr \<Rightarrow> irc_state result" where
  "quit_irc_connection serialize st s =
     (case get_irc_server_connection st s of
        Exit n \<Rightarrow> Exit n
      | Fault f \<Rightarrow> Fault f
      | Ret conn \<Rightarrow>
          (case irc_push_message serialize st s quit_msg of
             Exit n \<Rightarrow> Exit n
           | Fault f \<Rightarrow> Fault f
           | Ret st1 \<Rightarrow>
               (case conn of
                  None \<Rightarrow> Fault Null_deref
                | Some p \<Rightarrow>
                    (case heap st1 p of
                       None \<Rightarrow> Fault Dangling_deref
                     | Some c \<Rightarrow>
                         (let st2 = st1\<lparr>heap := (heap st1)(p \<mapsto> c\<lparr>ev_is_running := Some False\<rparr>)\<rparr>;
                              st3 = emit (Gnutls_deinit (socket c)) st2;
                              st4 = emit Gnutls_certificate_free_credentials st3;
                              st5 = emit Gnutls_global_deinit st4;
                              st6 = emit (Sys_close (socket c)) st5
                          in Ret (st6\<lparr>heap := (heap st6)(p := None)\<rparr>))))))"

section \<open>Reading one line\<close>

definition CR :: char where
  "CR = CHR 0x0D"

definition LF :: char where
  "LF = CHR 0x0A"

definition NUL :: char where
  "NUL = CHR 0x00"

text \<open>
  The bytes the peer sends on a connection are a list. \<^verbatim>\<open>recv\<close> and
  \<^verbatim>\<open>gnutls_record_recv\<close>, asked for one byte, deliver the next one; once the list is
  used up they store nothing (and return \<open>0\<close> here; the caller ignores the value).
\<close>

definition transport_recv :: "transport \<Rightarrow> string \<Rightarrow> int \<times> char option \<times> string" where
  "transport_recv t stream =
     (case stream of [] \<Rightarrow> (0, None, []) | b # rest \<Rightarrow> (1, Some b, rest))"

text \<open>
  \<^verbatim>\<open>irc_read_bytes\<close> with \<^verbatim>\<open>nbytes = 1\<close>, as its one caller uses it. The result
  is the return value, the byte stored at the destination if one was, and the rest of the
  stream. The destination \<^verbatim>\<open>buf + i\<close> is never \<^verbatim>\<open>NULL\<close>.
\<close>

definition irc_read_bytes ::
  "irc_state \<Rightarrow> server_ptr \<Rightarrow> string \<Rightarrow> (int \<times> char option \<times> string) result" where
  "irc_read_bytes st s stream =
     (case get_irc_server_connection st s of
        Exit n \<Rightarrow> Exit n
      | Fault f \<Rightarrow> Fault f
      | Ret None \<Rightarrow> Ret (- 1, None, stream)
      | Ret (Some p) \<Rightarrow>
          (case heap st p of
             None \<Rightarrow> Fault Dangling_deref
           | Some c \<Rightarrow>
               if secure (servers st s) then Ret (transport_recv (Tls (socket c)) stream)
               else Ret (transport_recv (Plain (socket c)) stream)))"

text \<open>
  \<^verbatim>\<open>irc_read_message\<close>. The buffer is the memory around \<^verbatim>\<open>buf\<close>, indexed from
  \<^verbatim>\<open>buf\<close>: the array proper is the indices \<open>0\<close> to \<open>IRC_MESSAGE_SIZE - 1\<close>, and the
  function is given whatever bytes lie next to it, because the loop condition
  \<^verbatim>\<open>buf[i - 2] != '\r' && buf[i - 1] != '\n' && i < IRC_MESSAGE_SIZE - 1\<close> reads
  \<^verbatim>\<open>buf[i - 2]\<close> at every test, and \<^verbatim>\<open>buf[i - 1]\<close> when the first comparison did
  not already decide (\<^verbatim>\<open>&&\<close> evaluates left to right and stops early). Every index the
  function reads or writes is recorded in \<open>accessed\<close>, in order.
\<close>

record read_outcome =
  ret_val :: int
  buffer :: "int \<Rightarrow> char"
  remaining :: string
  accessed :: "int list"

function irc_read_loop ::
  "irc_state \<Rightarrow> server_ptr \<Rightarrow> (int \<Rightarrow> char) \<Rightarrow> string \<Rightarrow> int list \<Rightarrow> int \<Rightarrow> read_outcome result" where
  "irc_read_loop st s buf stream acc i =
     (if buf (i - 2) = CR
      then Ret \<lparr>ret_val = i, buffer = buf, remaining = stream, accessed = acc @ [i - 2]\<rparr>
      else if buf (i - 1) = LF \<or> \<not> i < IRC_MESSAGE_SIZE - 1
      then Ret \<lparr>ret_val = i, buffer = buf, remaining = stream, accessed = acc @ [i - 2, i - 1]\<rparr>
      else
        (case irc_read_bytes st s stream of
           Exit n \<Rightarrow> Exit n
         | Fault f \<Rightarrow> Fault f
         | Ret (n, None, rest) \<Rightarrow> irc_read_loop st s buf rest (acc @ [i - 2, i - 1]) (i + 1)
         | Ret (n, Some b, rest) \<Rightarrow>
             irc_read_loop st s (buf(i := b)) rest (acc @ [i - 2, i - 1, i]) (i + 1)))"
  by pat_completeness auto
termination
  by (relation "measure (\<lambda>(st, s, buf, stream, acc, i). nat (IRC_MESSAGE_SIZE - 1 - i))")
     (auto simp: IRC_MESSAGE_SIZE_def)

declare irc_read_loop.simps [simp del]

definition irc_read_message ::
  "irc_state \<Rightarrow> server_ptr \<Rightarrow> (int \<Rightarrow> char) \<Rightarrow> string \<Rightarrow> read_outcome result" where
  "irc_read_message st s buf stream =
     (case get_irc_server_connection st s of
        Exit n \<Rightarrow> Exit n
      | Fault f \<Rightarrow> Fault f
      | Ret None \<Rightarrow> Ret \<lparr>ret_val = - 1, buffer = buf, remaining = stream, accessed = []\<rparr>
      | Ret (Some c) \<Rightarrow>
          (case irc_read_loop st s buf stream [] 0 of
             Exit n \<Rightarrow> Exit n
           | Fault f \<Rightarrow> Fault f
           | Ret r \<Rightarrow>
               Ret (r\<lparr>buffer := (buffer r)(ret_val r := NUL, IRC_MESSAGE_SIZE - 1 := NUL),
                      accessed := accessed r @ [ret_val r, IRC_MESSAGE_SIZE - 1]\<rparr>)))"

text \<open>The C string a buffer holds: the bytes from index \<open>0\<close> up to the first NUL.\<close>

definition c_string :: "(int \<Rightarrow> char) \<Rightarrow> string" where
  "c_string buf = takeWhile (\<lambda>c. c \<noteq> NUL) (map (\<lambda>k. buf (int k)) [0 ..< nat IRC_MESSAGE_SIZE])"

section \<open>Socket creation and connection setup\<close>

text \<open>
  The operating system and GnuTLS are scripts of results, read in the order the code
  makes the calls. A call that fails returns \<open>- 1\<close> and sets \<^verbatim>\<open>errno\<close>; a call that
  succeeds leaves \<^verbatim>\<open>errno\<close> as it was.
\<close>

datatype sys_res = Sys_ok int | Sys_err int

definition sys_call :: "sys_res \<Rightarrow> irc_state \<Rightarrow> int \<times> irc_state" where
  "sys_call r st = (case r of Sys_ok v \<Rightarrow> (v, st) | Sys_err e \<Rightarrow> (- 1, st\<lparr>errno := e\<rparr>))"

record sys_env =
  getaddrinfo_ret :: int
  getaddrinfo_ai :: "addrinfo list"
  attempts :: "(sys_res \<times> sys_res) list"
  malloc_conn :: "conn_ptr option"
  handshakes :: "int list"
  fcntl_setfl :: int
  select_rv :: int
  fd_isset :: bool
  getsockopt_ret :: int

definition EXIT_FAILURE :: int where
  "EXIT_FAILURE = 1"

definition GNUTLS_E_AGAIN :: int where
  "GNUTLS_E_AGAIN = - 28"

definition GNUTLS_E_INTERRUPTED :: int where
  "GNUTLS_E_INTERRUPTED = - 52"

text \<open>
  The loop of \<^verbatim>\<open>irc_create_socket\<close>:
  \<^verbatim>\<open>while (conn == -1 && ai != NULL)\<close>. Each pass takes one entry of the script, the
  result of \<^verbatim>\<open>socket\<close> and the result of \<^verbatim>\<open>connect\<close>. When \<^verbatim>\<open>socket\<close> fails
  the \<^verbatim>\<open>continue\<close> repeats the pass with the same address. When \<^verbatim>\<open>connect\<close> fails,
  or \<^verbatim>\<open>errno\<close> is set, the socket is closed and the next address is taken; \<^verbatim>\<open>sock\<close>
  keeps the closed descriptor. \<open>None\<close>: the script ended with the loop still running.
\<close>

fun create_socket_loop ::
  "(sys_res \<times> sys_res) list \<Rightarrow> irc_state \<Rightarrow> addrinfo list \<Rightarrow> int \<Rightarrow> int \<Rightarrow> (int \<times> irc_state) option" where
  "create_socket_loop script st [] sock conn = Some (sock, st)"
| "create_socket_loop [] st (a # ai) sock conn = (if conn = - 1 then None else Some (sock, st))"
| "create_socket_loop ((sres, cres) # script) st (a # ai) sock conn =
     (if conn = - 1 then
        (let (sock1, st1) = sys_call sres st;
             st2 = emit (Sys_socket a sock1) st1
         in if sock1 = - 1
            then create_socket_loop script (emit (Diag ''client: socket'') st2) (a # ai) sock1 conn
            else
              (let (conn1, st3) = sys_call cres st2;
                   st4 = emit (Sys_connect sock1 a conn1) st3
               in if conn1 = - 1 \<or> errno st4 \<noteq> 0
                  then create_socket_loop script ((emit (Sys_close sock1) st4)\<lparr>errno := 0\<rparr>) ai sock1 (- 1)
                  else create_socket_loop script st4 (a # ai) sock1 conn1))
      else Some (sock, st))"

definition irc_create_socket ::
  "sys_env \<Rightarrow> irc_state \<Rightarrow> server_ptr \<Rightarrow> (int \<times> irc_state) result option" where
  "irc_create_socket env st s =
     (if getaddrinfo_ret env \<noteq> 0 then Some (Exit EXIT_FAILURE)
      else map_option Ret (create_socket_loop (attempts env) st (getaddrinfo_ai env) (- 1) (- 1)))"

text \<open>
  \<^verbatim>\<open>create_irc_connection\<close>: \<^verbatim>\<open>malloc\<close> gives an address or \<^verbatim>\<open>NULL\<close>; the
  fields \<^verbatim>\<open>server\<close>, \<^verbatim>\<open>socket\<close> and the two queues are set.
\<close>

definition create_irc_connection ::
  "sys_env \<Rightarrow> irc_state \<Rightarrow> server_ptr \<Rightarrow> int \<Rightarrow> conn_ptr option \<times> irc_state" where
  "create_irc_connection env st s sock =
     (case malloc_conn env of
        None \<Rightarrow> (None, st)
      | Some c \<Rightarrow>
          (Some c,
           st\<lparr>heap := (heap st)(c \<mapsto>
                 \<lparr>server = s, socket = sock, ev_is_running = None,
                  read_queue = [], write_queue = []\<rparr>)\<rparr>))"

text \<open>
  \<^verbatim>\<open>encrypt_irc_connection\<close>: the handshake is repeated while it returns
  \<^verbatim>\<open>GNUTLS_E_INTERRUPTED\<close> or \<^verbatim>\<open>GNUTLS_E_AGAIN\<close>; any other result ends the loop
  and is not looked at. \<open>None\<close>: the script ended with the loop still running.
\<close>

fun handshake_loop :: "int list \<Rightarrow> int \<Rightarrow> irc_state \<Rightarrow> irc_state option" where
  "handshake_loop [] sock st = None"
| "handshake_loop (ret # rets) sock st =
     (let st1 = emit (Gnutls_handshake sock ret) st
      in if ret = GNUTLS_E_INTERRUPTED \<or> ret = GNUTLS_E_AGAIN then handshake_loop rets sock st1
         else Some st1)"

definition encrypt_irc_connection :: "sys_env \<Rightarrow> irc_state \<Rightarrow> conn_ptr \<Rightarrow> irc_state result option" where
  "encrypt_irc_connection env st c =
     (case heap st c of
        None \<Rightarrow> Some (Fault Dangling_deref)
      | Some cn \<Rightarrow> map_option Ret (handshake_loop (handshakes env) (socket cn) st))"

text \<open>\<^verbatim>\<open>setnonblock\<close> returns what the second \<^verbatim>\<open>fcntl\<close> returns.\<close>

definition setnonblock :: "sys_env \<Rightarrow> int \<Rightarrow> int" where
  "setnonblock env fd = fcntl_setfl env"

text \<open>
  \<^verbatim>\<open>verify_socket\<close> ends the process unless \<^verbatim>\<open>select\<close> reports the socket readable
  or writable and \<^verbatim>\<open>getsockopt\<close> succeeds.
\<close>

definition verify_socket :: "sys_env \<Rightarrow> irc_state \<Rightarrow> int \<Rightarrow> (int \<times> irc_state) result" where
  "verify_socket env st sock =
     (let st1 = emit (Diag ''check write'') st in
      if select_rv env = - 1 then Exit EXIT_FAILURE
      else if select_rv env = 0 then Exit EXIT_FAILURE
      else if fd_isset env
      then (if getsockopt_ret env < 0 then Exit EXIT_FAILURE else Ret (0, st1))
      else Exit EXIT_FAILURE)"

text \<open>
  \<^verbatim>\<open>setup_irc_connection\<close>: create the connection, store it in \<^verbatim>\<open>conns\<close> (the
  return value of \<^verbatim>\<open>make_irc_connection_entry\<close> is not read), encrypt if the server is
  secure, make the socket non-blocking, verify it.
\<close>

definition setup_irc_connection ::
  "sys_env \<Rightarrow> irc_state \<Rightarrow> server_ptr \<Rightarrow> int \<Rightarrow> (int \<times> irc_state) result option" where
  "setup_irc_connection env st s sock =
     (case create_irc_connection env st s sock of
        (None, st1) \<Rightarrow> Some (Ret (1, st1))
      | (Some c, st1) \<Rightarrow>
          (case make_irc_connection_entry st1 c of
             Exit n \<Rightarrow> Some (Exit n)
           | Fault f \<Rightarrow> Some (Fault f)
           | Ret (r, st2) \<Rightarrow>
               (case (if secure (servers st2 s)
                      then encrypt_irc_connection env (emit (Diag ''Encrypting connection'') st2) c
                      else Some (Ret st2)) of
                  None \<Rightarrow> None
                | Some (Exit n) \<Rightarrow> Some (Exit n)
                | Some (Fault f) \<Rightarrow> Some (Fault f)
                | Some (Ret st3) \<Rightarrow>
                    (case heap st3 c of
                       None \<Rightarrow> Some (Fault Dangling_deref)
                     | Some cn \<Rightarrow>
                         if setnonblock env (socket cn) = - 1 then Some (Exit EXIT_FAILURE)
                         else
                           (case verify_socket env st3 sock of
                              Exit n \<Rightarrow> Some (Exit n)
                            | Fault f \<Rightarrow> Some (Fault f)
                            | Ret (v, st4) \<Rightarrow> Some (Ret (0, st4)))))))"

text \<open>
  \<^verbatim>\<open>irc_server_connect\<close>: the two guards come first and return \<open>- 1\<close>; only then is a
  socket created. \<^verbatim>\<open>err (1, ...)\<close> ends the process with status \<open>1\<close>.
\<close>

definition irc_server_connect ::
  "sys_env \<Rightarrow> irc_state \<Rightarrow> server_ptr \<Rightarrow> (int \<times> irc_state) result option" where
  "irc_server_connect env st s =
     (case server_connected st s of
        Exit n \<Rightarrow> Some (Exit n)
      | Fault f \<Rightarrow> Some (Fault f)
      | Ret True \<Rightarrow> Some (Ret (- 1, emit (Diag ''Server already connected'') st))
      | Ret False \<Rightarrow>
          (case connections_cap_reached st of
             Exit n \<Rightarrow> Some (Exit n)
           | Fault f \<Rightarrow> Some (Fault f)
           | Ret True \<Rightarrow> Some (Ret (- 1, emit (Diag ''To Many Connections'') st))
           | Ret False \<Rightarrow>
               (case irc_create_socket env st s of
                  None \<Rightarrow> None
                | Some (Exit n) \<Rightarrow> Some (Exit n)
                | Some (Fault f) \<Rightarrow> Some (Fault f)
                | Some (Ret (sock, st1)) \<Rightarrow>
                    if sock = - 1 then Some (Exit 1)
                    else
                      (case setup_irc_connection env st1 s sock of
                         None \<Rightarrow> None
                       | Some (Exit n) \<Rightarrow> Some (Exit n)
                       | Some (Fault f) \<Rightarrow> Some (Fault f)
                       | Some (Ret (ret, st2)) \<Rightarrow>
                           if ret = 1 then Some (Exit 1)
                           else if ret \<noteq> 0 then Some (Exit EXIT_FAILURE)
                           else Some (Ret (0, st2))))))"

section \<open>The read callback\<close>

text \<open>
  \<^verbatim>\<open>get_irc_connection_from_watcher\<close>. A pointer to a watcher is represented by the
  address of the connection whose \<^verbatim>\<open>watcher\<close> field it points to, so
  \<^verbatim>\<open>w == &conns[i]->watcher\<close>, which computes an address and reads no memory, is
  \<open>w = p\<close>.
\<close>

function watcher_loop :: "irc_state \<Rightarrow> conn_ptr \<Rightarrow> nat \<Rightarrow> conn_ptr option result" where
  "watcher_loop st w i =
     (if length (conns st) \<le> i then Fault Out_of_bounds
      else case conns st ! i of
        None \<Rightarrow> Ret None
      | Some p \<Rightarrow> if w = p then Ret (Some p) else watcher_loop st w (Suc i))"
  by pat_completeness auto
termination
  by (relation "measure (\<lambda>(st, w, i). length (conns st) - i)") auto

declare watcher_loop.simps [simp del]

definition get_irc_connection_from_watcher :: "irc_state \<Rightarrow> conn_ptr \<Rightarrow> conn_ptr option result" where
  "get_irc_connection_from_watcher st w = watcher_loop st w 0"

text \<open>
  \<^verbatim>\<open>irc_loop_read_callback\<close>: a fresh buffer of \<^verbatim>\<open>IRC_MESSAGE_SIZE\<close> zero bytes
  (\<open>mem\<close> is the memory that happens to surround it), one line read into it, and the
  buffer appended to the inbound queue of the connection. The first node of an empty queue
  is allocated with \<^verbatim>\<open>malloc (sizeof (message_queue))\<close>. A node behind the last one is
  allocated with \<^verbatim>\<open>malloc (sizeof (conn->read_queue))\<close>, the size of a pointer, and
  \<^verbatim>\<open>mq->next->next = NULL\<close> then writes behind the bytes asked for: \<open>roomy\<close> says
  whether the block the allocator handed out is large enough for a whole node all the
  same; if it is not, the write is the fault \<open>Out_of_bounds\<close>.
\<close>

definition irc_loop_read_callback ::
  "irc_state \<Rightarrow> conn_ptr \<Rightarrow> (int \<Rightarrow> char) \<Rightarrow> bool \<Rightarrow> string \<Rightarrow> (irc_state \<times> string) result" where
  "irc_loop_read_callback st w mem roomy stream =
     (case get_irc_connection_from_watcher st w of
        Exit n \<Rightarrow> Exit n
      | Fault f \<Rightarrow> Fault f
      | Ret None \<Rightarrow> Fault Null_deref
      | Ret (Some conn) \<Rightarrow>
          (case heap st conn of
             None \<Rightarrow> Fault Dangling_deref
           | Some c \<Rightarrow>
               (let buf = (\<lambda>k. if 0 \<le> k \<and> k < IRC_MESSAGE_SIZE then NUL else mem k) in
                case irc_read_message st (server c) buf stream of
                  Exit n \<Rightarrow> Exit n
                | Fault f \<Rightarrow> Fault f
                | Ret r \<Rightarrow>
                    (let st1 = emit (Diag ''main loop: %s'') st in
                     if read_queue c \<noteq> [] \<and> \<not> roomy then Fault Out_of_bounds
                     else
                       Ret (st1\<lparr>heap := (heap st1)(conn \<mapsto>
                              c\<lparr>read_queue := mq_push (read_queue c) (c_string (buffer r))\<rparr>)\<rparr>,
                            remaining r)))))"

text \<open>
  \<^verbatim>\<open>irc_do_event_loop\<close> up to its \<^verbatim>\<open>while\<close> loop: the connection is looked up and
  used untested, and its running flag is set. Each pass of the loop then runs
  \<^verbatim>\<open>ev_run\<close> once, which calls \<^verbatim>\<open>irc_loop_read_callback\<close> when the socket is
  readable, and drains the two queues with the functions above.
\<close>

definition irc_do_event_loop_enter :: "irc_state \<Rightarrow> server_ptr \<Rightarrow> irc_state result" where
  "irc_do_event_loop_enter st s =
     (case get_irc_server_connection st s of
        Exit n \<Rightarrow> Exit n
      | Fault f \<Rightarrow> Fault f
      | Ret None \<Rightarrow> Fault Null_deref
      | Ret (Some conn) \<Rightarrow>
          (case heap st conn of
             None \<Rightarrow> Fault Dangling_deref
           | Some c \<Rightarrow> Ret (st\<lparr>heap := (heap st)(conn \<mapsto> c\<lparr>ev_is_running := Some True\<rparr>)\<rparr>)))"

section \<open>Reachable states and what the registry holds\<close>

text \<open>
  The non-\<^verbatim>\<open>NULL\<close> slots of \<^verbatim>\<open>conns\<close> in array order; those of them that point
  to a connection that is allocated; and the servers of the latter.
\<close>

definition registered :: "irc_state \<Rightarrow> conn_ptr list" where
  "registered st = map the (filter (\<lambda>x. x \<noteq> None) (conns st))"

definition live_connections :: "irc_state \<Rightarrow> conn_ptr list" where
  "live_connections st = filter (\<lambda>p. heap st p \<noteq> None) (registered st)"

definition live_servers :: "irc_state \<Rightarrow> server_ptr list" where
  "live_servers st = map (\<lambda>p. server (the (heap st p))) (live_connections st)"

text \<open>
  The states the program can be in: the initial one (the static array is zeroed, nothing
  is allocated), and those that a call of one of the functions above leads to when it
  returns. \<^verbatim>\<open>malloc\<close> never returns an address that is still allocated, and
  \<^verbatim>\<open>errno\<close> may be changed by any library call in between.
\<close>

inductive reachable :: "irc_state \<Rightarrow> bool" where
  start: "reachable (init_state srv e)"
| connect:
    "reachable st \<Longrightarrow> (\<forall>p. malloc_conn env = Some p \<longrightarrow> heap st p = None)
     \<Longrightarrow> irc_server_connect env st s = Some (Ret (r, st')) \<Longrightarrow> reachable st'"
| push: "reachable st \<Longrightarrow> irc_push_string st s str = Ret st' \<Longrightarrow> reachable st'"
| drain_write:
    "reachable st \<Longrightarrow> irc_process_write_message_queue st conn = Ret st' \<Longrightarrow> reachable st'"
| drain_read:
    "reachable st \<Longrightarrow> irc_process_read_message_queue ircmsg_parse st conn = Ret st'
     \<Longrightarrow> reachable st'"
| read_callback:
    "reachable st \<Longrightarrow> irc_loop_read_callback st w mem roomy stream = Ret (st', rest)
     \<Longrightarrow> reachable st'"
| event_loop: "reachable st \<Longrightarrow> irc_do_event_loop_enter st s = Ret st' \<Longrightarrow> reachable st'"
| quit: "reachable st \<Longrightarrow> quit_irc_connection serialize st s = Ret st' \<Longrightarrow> reachable st'"
| library_call: "reachable st \<Longrightarrow> reachable (st\<lparr>errno := e\<rparr>)"

section \<open>Observing the outbound path\<close>

text \<open>A sequence of \<^verbatim>\<open>irc_push_string\<close> calls for one server, in order.\<close>

fun push_strings :: "irc_state \<Rightarrow> server_ptr \<Rightarrow> string list \<Rightarrow> irc_state result" where
  "push_strings st s [] = Ret st"
| "push_strings st s (str # strs) =
     (case irc_push_string st s str of
        Ret st' \<Rightarrow> push_strings st' s strs
      | Exit n \<Rightarrow> Exit n
      | Fault f \<Rightarrow> Fault f)"

text \<open>What was handed to the transports, in order.\<close>

fun sent :: "event list \<Rightarrow> (transport \<times> string) list" where
  "sent [] = []"
| "sent (Send t m # es) = (t, m) # sent es"
| "sent (e # es) = sent es"

text \<open>The transport \<^verbatim>\<open>irc_write_bytes\<close> chooses for a connection of server \<open>s\<close>.\<close>

definition wire :: "irc_state \<Rightarrow> server_ptr \<Rightarrow> irc_connection \<Rightarrow> transport" where
  "wire st s c = (if secure (servers st s) then Tls (socket c) else Plain (socket c))"

section \<open>Invariants of the registry\<close>

text \<open>The shape of the array: the registered pointers first, then only NULL.\<close>

definition shape :: "irc_state \<Rightarrow> conn_ptr list \<Rightarrow> bool" where
  "shape st ps \<longleftrightarrow>
     conns st = map Some ps @ replicate (Suc MAX_CONNECTIONS - length ps) None
     \<and> length ps \<le> MAX_CONNECTIONS"

text \<open>
  The lookup seen on the list of registered pointers: it dereferences them one after the
  other until one has the server asked for.
\<close>

fun scan ::
  "(conn_ptr \<Rightarrow> irc_connection option) \<Rightarrow> server_ptr \<Rightarrow> conn_ptr list \<Rightarrow> conn_ptr option result" where
  "scan h s [] = Ret None"
| "scan h s (p # ps) =
     (case h p of
        None \<Rightarrow> Fault Dangling_deref
      | Some c \<Rightarrow> if s = server c then Ret (Some p) else scan h s ps)"

text \<open>Two states in which the registry looks the same: same array, same servers behind it.\<close>

definition same_view :: "irc_state \<Rightarrow> irc_state \<Rightarrow> bool" where
  "same_view st st' \<longleftrightarrow>
     conns st' = conns st \<and> (\<forall>q. map_option server (heap st' q) = map_option server (heap st q))"

text \<open>Steps that touch only \<^verbatim>\<open>errno\<close> and the record of effects.\<close>

definition same_store :: "irc_state \<Rightarrow> irc_state \<Rightarrow> bool" where
  "same_store st st' \<longleftrightarrow> conns st' = conns st \<and> heap st' = heap st \<and> servers st' = servers st"

text \<open>What holds in every reachable state.\<close>

definition registry_inv :: "irc_state \<Rightarrow> bool" where
  "registry_inv st \<longleftrightarrow> shape st (registered st) \<and> distinct (live_servers st)"

section \<open>Sample inputs\<close>

definition example_servers :: "server_ptr \<Rightarrow> irc_server" where
  "example_servers =
     (\<lambda>_. \<lparr>name = ''libera'', host = ''irc.libera.chat'', port = ''6667'', secure = False\<rparr>)"

definition example_conn :: irc_connection where
  "example_conn =
     \<lparr>server = 7, socket = 3, ev_is_running = Some True, read_queue = [], write_queue = []\<rparr>"

definition example_state :: irc_state where
  "example_state =
     \<lparr>conns = Some 100 # replicate MAX_CONNECTIONS None,
      heap = (\<lambda>_. None)(100 \<mapsto> example_conn),
      servers = example_servers, errno = 0, trace = []\<rparr>"

definition example_parse :: "string \<Rightarrow> nat \<Rightarrow> int \<times> irc_msg" where
  "example_parse line n =
     (if take n line = ''PING'' then (1, \<lparr>msg_prefix = None, command = ''PING'', params = []\<rparr>)
      else (0, \<lparr>msg_prefix = None, command = [], params = []\<rparr>))"

text \<open>
  One address is resolved; \<^verbatim>\<open>socket\<close> gives descriptor \<open>3\<close>; \<^verbatim>\<open>connect\<close> is
  refused (\<^verbatim>\<open>ECONNREFUSED\<close>, \<open>111\<close>).
\<close>

definition refused_env :: sys_env where
  "refused_env =
     \<lparr>getaddrinfo_ret = 0, getaddrinfo_ai = [1], attempts = [(Sys_ok 3, Sys_err 111)],
      malloc_conn = Some 100, handshakes = [0], fcntl_setfl = 0, select_rv = 1,
      fd_isset = True, getsockopt_ret = 0\<rparr>"

text \<open>
  A network in which server \<open>k\<close> resolves to one address that connects at once, with a
  fresh allocation for its connection; and the state after ten connects in a row, to the
  servers \<open>1\<close> to \<open>10\<close>.
\<close>

definition example_env :: "nat \<Rightarrow> sys_env" where
  "example_env k =
     \<lparr>getaddrinfo_ret = 0, getaddrinfo_ai = [k], attempts = [(Sys_ok (int k + 2), Sys_ok 0)],
      malloc_conn = Some (100 + k), handshakes = [0], fcntl_setfl = 0, select_rv = 1,
      fd_isset = True, getsockopt_ret = 0\<rparr>"

fun connect_all :: "nat list \<Rightarrow> irc_state \<Rightarrow> irc_state" where
  "connect_all [] st = st"
| "connect_all (k # ks) st =
     (if heap st (100 + k) = None
      then (case irc_server_connect (example_env k) st k of
              Some (Ret (r, st')) \<Rightarrow> connect_all ks st'
            | _ \<Rightarrow> st)
      else st)"

definition full_state :: irc_state where
  "full_state = connect_all [1, 2, 3, 4, 5, 6, 7, 8, 9, 10] (init_state example_servers 0)"



lemma example_lookup: "get_irc_server_connection example_state 7 = Ret (Some 100)"
  by (simp add: get_irc_server_connection_def get_conn_loop.simps example_state_def
        example_conn_def MAX_CONNECTIONS_def)

lemma example_read_byte: "irc_read_bytes example_state 7 (b # rest) = Ret (1, Some b, rest)"
  by (simp add: irc_read_bytes_def example_lookup)
     (simp add: example_state_def example_servers_def transport_recv_def)

section \<open>Dispatch of one inbound line\<close>

text \<open>
  C4. For a line drained from the inbound queue of a live connection: an empty line
  changes nothing and calls no hook; a line the parser rejects (return code 0) is logged
  and dropped, and the function returns normally; a line parsed into a message with
  command \<open>X\<close> causes exactly two hook calls, the first keyed \<open>X\<close>, the second keyed
  \<open>''*''\<close>, and nothing else.
\<close>

theorem handle_message_dispatch:
  assumes "heap st conn = Some c" and "ircmsg_parse message (strlen message) = (ret, m)"
  shows "handle_message ircmsg_parse st conn message =
           Ret (st\<lparr>trace := trace st @
                  (if strlen message = 0 then []
                   else if ret = 0 then [Diag ''ERROR: parsing message'']
                   else [Exec_hooks (server c) (command m) m, Exec_hooks (server c) ''*'' m])\<rparr>)"
  using assms by (simp add: handle_message_def emit_def Let_def)

theorem handle_message_dispatch_witness:
  "handle_message example_parse example_state 100 [] = Ret example_state
   \<and> handle_message example_parse example_state 100 ''PONG'' =
       Ret (example_state\<lparr>trace := [Diag ''ERROR: parsing message'']\<rparr>)
   \<and> handle_message example_parse example_state 100 ''PING'' =
       Ret (example_state\<lparr>trace :=
         [Exec_hooks 7 ''PING'' \<lparr>msg_prefix = None, command = ''PING'', params = []\<rparr>,
          Exec_hooks 7 ''*'' \<lparr>msg_prefix = None, command = ''PING'', params = []\<rparr>]\<rparr>)"
proof -
  have h: "heap example_state 100 = Some example_conn"
    by (simp add: example_state_def)
  have p0: "example_parse [] (strlen []) = (0, \<lparr>msg_prefix = None, command = [], params = []\<rparr>)"
    by (simp add: example_parse_def strlen_def)
  have p1: "example_parse ''PONG'' (strlen ''PONG'') =
              (0, \<lparr>msg_prefix = None, command = [], params = []\<rparr>)"
    by (simp add: example_parse_def strlen_def)
  have p2: "example_parse ''PING'' (strlen ''PING'') =
              (1, \<lparr>msg_prefix = None, command = ''PING'', params = []\<rparr>)"
    by (simp add: example_parse_def strlen_def)
  show ?thesis
    using handle_message_dispatch [where ircmsg_parse = example_parse and message = "[]", OF h p0]
      handle_message_dispatch [where ircmsg_parse = example_parse and message = "''PONG''", OF h p1]
      handle_message_dispatch [where ircmsg_parse = example_parse and message = "''PING''", OF h p2]
    by (simp add: strlen_def example_state_def example_conn_def)
qed

section \<open>Quit and teardown\<close>

text \<open>
  C1. Quit is to flush the queued QUIT line to the socket before the socket is closed.
  Evaluated on a registry with one live connection (server \<open>7\<close>, socket \<open>3\<close>, empty
  queues), for any serializer: the QUIT line is appended to the outbound queue;
  \<^verbatim>\<open>quit_irc_connection\<close> then returns with the socket closed and the connection
  freed, and its effects contain no \<open>Send\<close> at all; a drain of the outbound queue that
  runs afterwards finds the connection freed.
\<close>

theorem quit_closes_without_writing:
  "irc_push_message serialize example_state 7 quit_msg =
     Ret (example_state\<lparr>heap := (\<lambda>_. None)(100 \<mapsto>
            example_conn\<lparr>write_queue := [strdup (serialize quit_msg)]\<rparr>)\<rparr>)
   \<and> quit_irc_connection serialize example_state 7 =
     Ret (example_state\<lparr>heap := (\<lambda>_. None),
            trace := [Gnutls_deinit 3, Gnutls_certificate_free_credentials,
                      Gnutls_global_deinit, Sys_close 3]\<rparr>)
   \<and> irc_process_write_message_queue
        (example_state\<lparr>heap := (\<lambda>_. None),
            trace := [Gnutls_deinit 3, Gnutls_certificate_free_credentials,
                      Gnutls_global_deinit, Sys_close 3]\<rparr>) 100 = Fault Dangling_deref"
proof -
  have push: "irc_push_message serialize example_state 7 quit_msg =
     Ret (example_state\<lparr>heap := (\<lambda>_. None)(100 \<mapsto>
            example_conn\<lparr>write_queue := [strdup (serialize quit_msg)]\<rparr>)\<rparr>)"
    by (simp add: irc_push_message_def irc_push_string_def example_lookup)
       (simp add: example_state_def example_conn_def)
  have quit: "quit_irc_connection serialize example_state 7 =
     Ret (example_state\<lparr>heap := (\<lambda>_. None),
            trace := [Gnutls_deinit 3, Gnutls_certificate_free_credentials,
                      Gnutls_global_deinit, Sys_close 3]\<rparr>)"
    by (simp add: quit_irc_connection_def push example_lookup)
       (simp add: example_state_def example_conn_def emit_def)
  have drain: "irc_process_write_message_queue
        (example_state\<lparr>heap := (\<lambda>_. None),
            trace := [Gnutls_deinit 3, Gnutls_certificate_free_credentials,
                      Gnutls_global_deinit, Sys_close 3]\<rparr>) 100 = Fault Dangling_deref"
    by (simp add: irc_process_write_message_queue.simps)
  from push quit drain show ?thesis by simp
qed

text \<open>
  C6. After quit the registry is to hold no entry for the server. Evaluated on the same
  registry: after \<^verbatim>\<open>quit_irc_connection\<close> the array \<^verbatim>\<open>conns\<close> is what it was, slot
  \<open>0\<close> still holds the address of the connection, and the connection is freed; the lookup
  by that server and \<^verbatim>\<open>server_connected\<close> dereference the freed connection.
\<close>

theorem quit_leaves_registry_entry:
  "(case quit_irc_connection serialize example_state 7 of
      Ret st' \<Rightarrow>
        conns st' = conns example_state \<and> conns st' ! 0 = Some 100 \<and> heap st' 100 = None
        \<and> get_irc_server_connection st' 7 = Fault Dangling_deref
        \<and> server_connected st' 7 = Fault Dangling_deref
    | _ \<Rightarrow> False)"
  by (simp add: quit_irc_connection_def irc_push_message_def irc_push_string_def example_lookup)
     (simp add: example_state_def example_conn_def emit_def server_connected_def
        get_irc_server_connection_def get_conn_loop.simps)

section \<open>Enqueueing without a connection\<close>

text \<open>
  C10. \<^verbatim>\<open>irc_push_string\<close> is to handle a server that has no registered connection.
  Evaluated on the empty registry: the lookup gives \<^verbatim>\<open>NULL\<close> and
  \<^verbatim>\<open>irc_push_string\<close>, and with it \<^verbatim>\<open>irc_push_message\<close>, dereferences it. On the
  same input \<^verbatim>\<open>irc_write_bytes\<close> and \<^verbatim>\<open>irc_read_message\<close> test the result of the
  lookup and return \<open>- 1\<close>.
\<close>

theorem irc_push_string_null_connection:
  "irc_push_string (init_state example_servers 0) 7 ''PING'' = Fault Null_deref
   \<and> irc_push_message serialize (init_state example_servers 0) 7 quit_msg = Fault Null_deref
   \<and> irc_write_bytes (init_state example_servers 0) 7 ''PING'' 4 =
       Ret (- 1, emit (Diag ''emptry connection'') (init_state example_servers 0))
   \<and> (case irc_read_message (init_state example_servers 0) 7 (\<lambda>_. NUL) ''PING'' of
         Ret r \<Rightarrow> ret_val r = - 1 | _ \<Rightarrow> False)"
  by (simp add: irc_push_string_def irc_push_message_def irc_write_bytes_def irc_read_message_def
        get_irc_server_connection_def get_conn_loop.simps init_state_def MAX_CONNECTIONS_def)

section \<open>The line reader on concrete streams\<close>

lemma irc_read_loop_bounds:
  "irc_read_loop st s buf stream acc i = Ret r \<Longrightarrow> i \<le> IRC_MESSAGE_SIZE - 1 \<Longrightarrow>
     i \<le> ret_val r \<and> ret_val r \<le> IRC_MESSAGE_SIZE - 1"
proof (induction st s buf stream acc i rule: irc_read_loop.induct)
  case (1 st s buf stream acc i)
  note run = "1.prems"(1) [unfolded irc_read_loop.simps [of st s buf stream acc i]]
  show ?case
  proof (cases "buf (i - 2) = CR \<or> buf (i - 1) = LF \<or> \<not> i < IRC_MESSAGE_SIZE - 1")
    case True
    with run "1.prems"(2) show ?thesis by (auto split: if_splits)
  next
    case False
    then have go: "buf (i - 2) \<noteq> CR" "\<not> (buf (i - 1) = LF \<or> \<not> i < IRC_MESSAGE_SIZE - 1)"
      by auto
    from run go obtain n w rest where rb: "irc_read_bytes st s stream = Ret (n, w, rest)"
      by (auto split: result.splits)
    show ?thesis
    proof (cases w)
      case None
      then have "irc_read_loop st s buf rest (acc @ [i - 2, i - 1]) (i + 1) = Ret r"
        using run go rb by simp
      from "1.IH"(1) [OF go rb refl refl None this] go show ?thesis by simp
    next
      case (Some b)
      then have "irc_read_loop st s (buf(i := b)) rest (acc @ [i - 2, i - 1, i]) (i + 1) = Ret r"
        using run go rb by simp
      from "1.IH"(2) [OF go rb refl refl Some this] go show ?thesis by simp
    qed
  qed
qed

lemma irc_read_loop_accessed:
  "irc_read_loop st s buf stream acc i = Ret r \<Longrightarrow> \<exists>more. accessed r = acc @ (i - 2) # more"
proof (induction st s buf stream acc i rule: irc_read_loop.induct)
  case (1 st s buf stream acc i)
  note run = "1.prems"(1) [unfolded irc_read_loop.simps [of st s buf stream acc i]]
  show ?case
  proof (cases "buf (i - 2) = CR \<or> buf (i - 1) = LF \<or> \<not> i < IRC_MESSAGE_SIZE - 1")
    case True
    with run show ?thesis by (auto split: if_splits)
  next
    case False
    then have go: "buf (i - 2) \<noteq> CR" "\<not> (buf (i - 1) = LF \<or> \<not> i < IRC_MESSAGE_SIZE - 1)"
      by auto
    from run go obtain n w rest where rb: "irc_read_bytes st s stream = Ret (n, w, rest)"
      by (auto split: result.splits)
    show ?thesis
    proof (cases w)
      case None
      then have "irc_read_loop st s buf rest (acc @ [i - 2, i - 1]) (i + 1) = Ret r"
        using run go rb by simp
      from "1.IH"(1) [OF go rb refl refl None this] show ?thesis by auto
    next
      case (Some b)
      then have "irc_read_loop st s (buf(i := b)) rest (acc @ [i - 2, i - 1, i]) (i + 1) = Ret r"
        using run go rb by simp
      from "1.IH"(2) [OF go rb refl refl Some this] show ?thesis by auto
    qed
  qed
qed

text \<open>
  For a registered connection the reader always returns a length between \<open>0\<close> and
  \<open>IRC_MESSAGE_SIZE - 1\<close>, never an error, and its first access is always at index
  \<open>- 2\<close>, whatever the stream.
\<close>

lemma irc_read_message_registered:
  assumes "get_irc_server_connection st s = Ret (Some p)"
    and "irc_read_message st s buf stream = Ret r"
  shows "0 \<le> ret_val r \<and> ret_val r \<le> IRC_MESSAGE_SIZE - 1 \<and> hd (accessed r) = - 2"
proof -
  from assms obtain r0 where loop: "irc_read_loop st s buf stream [] 0 = Ret r0"
    and r: "r = r0\<lparr>buffer := (buffer r0)(ret_val r0 := NUL, IRC_MESSAGE_SIZE - 1 := NUL),
                   accessed := accessed r0 @ [ret_val r0, IRC_MESSAGE_SIZE - 1]\<rparr>"
    by (auto simp: irc_read_message_def split: result.splits)
  have "0 \<le> ret_val r0 \<and> ret_val r0 \<le> IRC_MESSAGE_SIZE - 1"
    using irc_read_loop_bounds [OF loop] by (simp add: IRC_MESSAGE_SIZE_def)
  moreover obtain more where "accessed r0 = (- 2) # more"
    using irc_read_loop_accessed [OF loop] by auto
  ultimately show ?thesis using r by simp
qed

text \<open>
  C2. Reading a line is to stop exactly when CR LF has been seen or the size limit is
  reached. Evaluated on a live connection, a zeroed buffer with zero bytes before it, and
  the stream \<open>a CR b c CR LF\<close>: the reader returns \<open>3\<close> with the buffer holding
  \<open>a CR b\<close>, and leaves \<open>c CR LF\<close> unread, although no LF has been read and the
  limit is far away. It stopped because \<^verbatim>\<open>buf[i - 2]\<close> was CR.
\<close>

theorem irc_read_message_early_stop:
  "(case irc_read_message example_state 7 (\<lambda>_. NUL) (''a'' @ [CR] @ ''bc'' @ [CR, LF]) of
      Ret r \<Rightarrow> ret_val r = 3 \<and> map (buffer r) [0, 1, 2, 3] = ''a'' @ [CR] @ ''b'' @ [NUL]
                \<and> remaining r = ''c'' @ [CR, LF]
    | _ \<Rightarrow> False)"
  by (simp add: irc_read_message_def irc_read_loop.simps example_lookup example_read_byte
        CR_def LF_def NUL_def IRC_MESSAGE_SIZE_def)

text \<open>
  C9. Every index the reader uses is to lie within \<open>0\<close> and \<open>8191\<close>. Evaluated on a
  live connection and the stream \<open>PING CR LF\<close>: the line is read (\<open>6\<close> bytes), and
  the first two indices the reader touches are \<open>- 2\<close> and \<open>- 1\<close>, before the start of
  the buffer.
\<close>

theorem irc_read_message_reads_before_buffer:
  "(case irc_read_message example_state 7 (\<lambda>_. NUL) (''PING'' @ [CR, LF]) of
      Ret r \<Rightarrow> ret_val r = 6 \<and> take 2 (accessed r) = [- 2, - 1]
                \<and> (\<exists>k \<in> set (accessed r). k < 0)
    | _ \<Rightarrow> False)"
  by (simp add: irc_read_message_def irc_read_loop.simps example_lookup example_read_byte
        CR_def LF_def NUL_def IRC_MESSAGE_SIZE_def)

section \<open>Socket creation when no address connects\<close>

text \<open>
  C8. \<^verbatim>\<open>irc_create_socket\<close> is to return a failure value, \<open>- 1\<close>, when every
  candidate address has been tried and none connected. Evaluated with one candidate whose
  \<^verbatim>\<open>connect\<close> is refused: the descriptor \<open>3\<close> is created, fails to connect, is
  closed, and is the value returned.
\<close>

theorem irc_create_socket_returns_closed_descriptor:
  "irc_create_socket refused_env (init_state example_servers 0) 7 =
     Some (Ret (3, (init_state example_servers 0)
       \<lparr>trace := [Sys_socket 1 3, Sys_connect 3 1 (- 1), Sys_close 3]\<rparr>))"
  by (simp add: irc_create_socket_def refused_env_def sys_call_def emit_def init_state_def)

section \<open>The outbound queue is first-in first-out\<close>

lemma sent_append: "sent (es @ fs) = sent es @ sent fs"
  by (induction es rule: sent.induct) simp_all

lemma mq_push_append: "mq_push q m = q @ [m]"
  by (induction q) simp_all

lemma strlen_strdup: "take (strlen m) m = strdup m"
  by (simp add: strlen_def strdup_def takeWhile_eq_take [symmetric])

lemma strdup_idem: "strdup (strdup m) = strdup m"
  by (simp only: strdup_def takeWhile_idem)

lemma get_conn_loop_cong:
  assumes "conns st' = conns st"
    and "\<And>q. map_option server (heap st' q) = map_option server (heap st q)"
  shows "get_conn_loop st' s i = get_conn_loop st s i"
  using assms
proof (induction st s i rule: get_conn_loop.induct)
  case (1 st s i)
  show ?case
  proof (cases "length (conns st) \<le> i")
    case True
    then show ?thesis
      using "1.prems"(1) by (simp add: get_conn_loop.simps [of st'] get_conn_loop.simps [of st])
  next
    case False
    note inside = this
    show ?thesis
    proof (cases "conns st ! i")
      case None
      then show ?thesis
        using inside "1.prems"(1)
        by (simp add: get_conn_loop.simps [of st'] get_conn_loop.simps [of st])
    next
      case (Some p)
      show ?thesis
      proof (cases "heap st p")
        case None
        then have "heap st' p = None"
          using "1.prems"(2) [of p] by simp
        then show ?thesis
          using inside Some None "1.prems"(1)
          by (simp add: get_conn_loop.simps [of st'] get_conn_loop.simps [of st])
      next
        case (Some c)
        then obtain c' where c': "heap st' p = Some c'" "server c' = server c"
          using "1.prems"(2) [of p] by auto
        show ?thesis
        proof (cases "s = server c")
          case True
          then show ?thesis
            using inside \<open>conns st ! i = Some p\<close> Some c' "1.prems"(1)
            by (simp add: get_conn_loop.simps [of st'] get_conn_loop.simps [of st])
        next
          case False
          have "get_conn_loop st' s (Suc i) = get_conn_loop st s (Suc i)"
            using "1.IH" [OF inside \<open>conns st ! i = Some p\<close> Some False] "1.prems" by blast
          then show ?thesis
            using inside \<open>conns st ! i = Some p\<close> Some c' False "1.prems"(1)
            by (simp add: get_conn_loop.simps [of st' s i] get_conn_loop.simps [of st s i])
        qed
      qed
    qed
  qed
qed

lemma get_conn_loop_found:
  "get_conn_loop st s i = Ret (Some p) \<Longrightarrow> \<exists>c. heap st p = Some c \<and> server c = s"
proof (induction st s i rule: get_conn_loop.induct)
  case (1 st s i)
  then show ?case
    by (subst (asm) (2) get_conn_loop.simps) (auto split: if_splits option.splits)
qed

lemma lookup_found:
  "get_irc_server_connection st s = Ret (Some p) \<Longrightarrow> \<exists>c. heap st p = Some c \<and> server c = s"
  unfolding get_irc_server_connection_def by (rule get_conn_loop_found)

lemma lookup_cong:
  "conns st' = conns st \<Longrightarrow> (\<And>q. map_option server (heap st' q) = map_option server (heap st q))
   \<Longrightarrow> get_irc_server_connection st' s = get_irc_server_connection st s"
  unfolding get_irc_server_connection_def by (rule get_conn_loop_cong)

lemma push_strings_appends:
  assumes "get_irc_server_connection st s = Ret (Some p)" and "heap st p = Some c"
  shows "push_strings st s strs =
           Ret (st\<lparr>heap := (heap st)(p \<mapsto> c\<lparr>write_queue := write_queue c @ map strdup strs\<rparr>)\<rparr>)"
  using assms
proof (induction strs arbitrary: st c)
  case Nil
  have "(heap st)(p \<mapsto> c) = heap st"
    using Nil.prems(2) by (simp add: fun_upd_idem)
  then show ?case by simp
next
  case (Cons str strs)
  let ?c1 = "c\<lparr>write_queue := write_queue c @ [strdup str]\<rparr>"
  let ?st1 = "st\<lparr>heap := (heap st)(p \<mapsto> ?c1)\<rparr>"
  have step: "irc_push_string st s str = Ret ?st1"
    using Cons.prems by (simp add: irc_push_string_def mq_push_append)
  have look: "get_irc_server_connection ?st1 s = Ret (Some p)"
    using Cons.prems lookup_cong [of ?st1 st s] by simp
  have rest: "push_strings ?st1 s strs =
          Ret (?st1\<lparr>heap := (heap ?st1)(p \<mapsto> ?c1\<lparr>write_queue := write_queue ?c1 @ map strdup strs\<rparr>)\<rparr>)"
    by (rule Cons.IH [OF look]) simp
  have same: "?st1\<lparr>heap := (heap ?st1)(p \<mapsto> ?c1\<lparr>write_queue := write_queue ?c1 @ map strdup strs\<rparr>)\<rparr> =
          st\<lparr>heap := (heap st)(p \<mapsto> c\<lparr>write_queue := write_queue c @ map strdup (str # strs)\<rparr>)\<rparr>"
    by simp
  have "push_strings st s (str # strs) = push_strings ?st1 s strs"
    by (simp only: push_strings.simps step result.case)
  then show ?case
    by (simp only: rest same)
qed


lemma irc_write_bytes_live:
  assumes "get_irc_server_connection st s = Ret (Some p)" and "heap st p = Some c"
  shows "irc_write_bytes st s buf n =
           Ret (int n, st\<lparr>trace := trace st @ [Diag ''sending command: %s'', Send (wire st s c) (take n buf)]\<rparr>)"
  using assms by (simp add: irc_write_bytes_def wire_def emit_def Let_def)

lemma drain_writes:
  assumes "get_irc_server_connection st s = Ret (Some p)" and "heap st p = Some c"
  shows "\<exists>st2. irc_process_write_message_queue st p = Ret st2
           \<and> conns st2 = conns st \<and> servers st2 = servers st
           \<and> heap st2 = (heap st)(p \<mapsto> c\<lparr>write_queue := []\<rparr>)
           \<and> sent (trace st2) = sent (trace st) @ map (\<lambda>m. (wire st s c, strdup m)) (write_queue c)"
  using assms
proof (induction "write_queue c" arbitrary: st c)
  case Nil
  then have "c\<lparr>write_queue := []\<rparr> = c" by simp
  then have "(heap st)(p \<mapsto> c\<lparr>write_queue := []\<rparr>) = heap st"
    using Nil.prems(2) by (simp add: fun_upd_idem)
  moreover have "irc_process_write_message_queue st p = Ret st"
    using Nil by (simp add: irc_process_write_message_queue.simps [of st p])
  ultimately show ?case
    using Nil.hyps by simp
next
  case (Cons m q)
  have sc: "server c = s"
    using lookup_found [OF Cons.prems(1)] Cons.prems(2) by simp
  let ?st1 = "st\<lparr>trace := trace st @ [Diag ''sending command: %s'', Send (wire st s c) (take (strlen m) m)]\<rparr>"
  let ?c2 = "c\<lparr>write_queue := q\<rparr>"
  let ?st2 = "?st1\<lparr>heap := (heap ?st1)(p \<mapsto> ?c2)\<rparr>"
  have wr: "irc_write_bytes st (server c) m (strlen m) = Ret (int (strlen m), ?st1)"
    using irc_write_bytes_live [OF Cons.prems] sc by simp
  have unfold: "irc_process_write_message_queue st p = irc_process_write_message_queue ?st2 p"
    using Cons.prems(2) Cons.hyps(2) [symmetric] wr
    by (simp add: irc_process_write_message_queue.simps [of st p])
  have look: "get_irc_server_connection ?st2 s = Ret (Some p)"
    using Cons.prems lookup_cong [of ?st2 st s] by simp
  have q: "q = write_queue ?c2" by simp
  have h2: "heap ?st2 p = Some ?c2" by simp
  obtain st3 where st3: "irc_process_write_message_queue ?st2 p = Ret st3"
    "conns st3 = conns ?st2" "servers st3 = servers ?st2"
    "heap st3 = (heap ?st2)(p \<mapsto> ?c2\<lparr>write_queue := []\<rparr>)"
    "sent (trace st3) = sent (trace ?st2) @ map (\<lambda>m. (wire ?st2 s ?c2, strdup m)) (write_queue ?c2)"
    using Cons.hyps(1) [OF q look h2] by blast
  have w: "wire ?st2 s ?c2 = wire st s c"
    by (simp add: wire_def)
  have "sent (trace st3) = sent (trace st) @ map (\<lambda>m. (wire st s c, strdup m)) (m # q)"
    using st3(5) w by (simp add: sent_append strlen_strdup)
  moreover have "heap st3 = (heap st)(p \<mapsto> c\<lparr>write_queue := []\<rparr>)"
    using st3(4) by simp
  ultimately show ?case
    using unfold st3(1,2,3) Cons.hyps(2) [symmetric] by simp
qed

text \<open>
  C5. For every sequence of enqueue calls on the outbound queue of a live connection,
  one drain hands every entry to the transport exactly once and in the order of the
  calls: entries already queued first, then the enqueued strings, each as the C string it
  is; afterwards the queue is empty.
\<close>

theorem outbound_queue_fifo:
  assumes "get_irc_server_connection st s = Ret (Some p)" and "heap st p = Some c"
  shows "\<exists>st1 st2. push_strings st s strs = Ret st1
           \<and> map_option write_queue (heap st1 p) = Some (write_queue c @ map strdup strs)
           \<and> irc_process_write_message_queue st1 p = Ret st2
           \<and> sent (trace st2) =
               sent (trace st) @ map (\<lambda>m. (wire st s c, strdup m)) (write_queue c @ strs)
           \<and> map_option write_queue (heap st2 p) = Some []"
proof -
  let ?c1 = "c\<lparr>write_queue := write_queue c @ map strdup strs\<rparr>"
  let ?st1 = "st\<lparr>heap := (heap st)(p \<mapsto> ?c1)\<rparr>"
  have push: "push_strings st s strs = Ret ?st1"
    by (rule push_strings_appends [OF assms])
  have look: "get_irc_server_connection ?st1 s = Ret (Some p)"
    using assms lookup_cong [of ?st1 st s] by simp
  have h1: "heap ?st1 p = Some ?c1" by simp
  obtain st2 where st2: "irc_process_write_message_queue ?st1 p = Ret st2"
    "heap st2 = (heap ?st1)(p \<mapsto> ?c1\<lparr>write_queue := []\<rparr>)"
    "sent (trace st2) = sent (trace ?st1) @ map (\<lambda>m. (wire ?st1 s ?c1, strdup m)) (write_queue ?c1)"
    using drain_writes [OF look h1] by blast
  have w: "wire ?st1 s ?c1 = wire st s c"
    by (simp add: wire_def)
  have "sent (trace st2) = sent (trace st) @ map (\<lambda>m. (wire st s c, strdup m)) (write_queue c @ strs)"
    using st2(3) w by (simp add: strdup_idem)
  then show ?thesis
    using push st2(1,2) by simp
qed

theorem outbound_queue_fifo_witness:
  "get_irc_server_connection example_state 7 = Ret (Some 100)
   \<and> heap example_state 100 = Some example_conn
   \<and> (\<exists>st1 st2. push_strings example_state 7 [''NICK circ'', ''JOIN #c''] = Ret st1
         \<and> map_option write_queue (heap st1 100) = Some [''NICK circ'', ''JOIN #c'']
         \<and> irc_process_write_message_queue st1 100 = Ret st2
         \<and> sent (trace st2) = [(Plain 3, ''NICK circ''), (Plain 3, ''JOIN #c'')]
         \<and> map_option write_queue (heap st2 100) = Some [])"
proof -
  have h: "heap example_state 100 = Some example_conn"
    by (simp add: example_state_def)
  show ?thesis
    using outbound_queue_fifo [OF example_lookup h, of "[''NICK circ'', ''JOIN #c'']"] example_lookup h
    by (simp add: example_state_def example_conn_def example_servers_def wire_def strdup_def)
qed


section \<open>The registry in reachable states\<close>

lemma shape_registered: "shape st ps \<Longrightarrow> registered st = ps"
  by (simp add: shape_def registered_def filter_map comp_def)

lemma shape_length: "shape st ps \<Longrightarrow> length (conns st) = Suc MAX_CONNECTIONS"
  by (simp add: shape_def)

lemma shape_nth:
  "shape st ps \<Longrightarrow> i \<le> MAX_CONNECTIONS \<Longrightarrow>
     conns st ! i = (if i < length ps then Some (ps ! i) else None)"
  by (auto simp: shape_def nth_append)

lemma get_conn_loop_scan:
  "shape st ps \<Longrightarrow> i \<le> length ps \<Longrightarrow> get_conn_loop st s i = scan (heap st) s (drop i ps)"
proof (induction "length ps - i" arbitrary: i)
  case 0
  then have i: "i = length ps" by simp
  have "i \<le> MAX_CONNECTIONS" using 0 by (simp add: shape_def)
  then show ?case
    using 0 i shape_nth [of st ps i] shape_length [of st ps]
    by (subst get_conn_loop.simps) simp
next
  case (Suc n)
  then have lt: "i < length ps" by simp
  then have le: "i \<le> MAX_CONNECTIONS" using Suc.prems by (simp add: shape_def)
  have nth: "conns st ! i = Some (ps ! i)"
    using shape_nth [OF Suc.prems(1) le] lt by simp
  have len: "\<not> length (conns st) \<le> i"
    using shape_length [OF Suc.prems(1)] le by simp
  have dr: "drop i ps = ps ! i # drop (Suc i) ps"
    using lt by (simp add: Cons_nth_drop_Suc)
  have IH: "get_conn_loop st s (Suc i) = scan (heap st) s (drop (Suc i) ps)"
    using Suc.hyps(1) [of "Suc i"] Suc.hyps(2) Suc.prems lt by simp
  show ?case
    using nth len IH
    by (simp add: get_conn_loop.simps [of st s i] dr split: option.splits)
qed

lemma lookup_scan: "shape st ps \<Longrightarrow> get_irc_server_connection st s = scan (heap st) s ps"
  using get_conn_loop_scan [of st ps 0 s] by (simp add: get_irc_server_connection_def)

lemma scan_none:
  "scan h s ps = Ret None \<Longrightarrow> p \<in> set ps \<Longrightarrow> \<exists>c. h p = Some c \<and> server c \<noteq> s"
  by (induction ps) (auto split: option.splits if_splits)

lemma scan_some:
  "scan h s ps = Ret (Some p) \<Longrightarrow> p \<in> set ps \<and> (\<exists>c. h p = Some c \<and> server c = s)"
  by (induction ps) (auto split: option.splits if_splits)

lemma scan_live:
  "\<forall>p \<in> set ps. h p \<noteq> None \<Longrightarrow> \<exists>r. scan h s ps = Ret r"
  by (induction ps) (auto split: option.splits)

lemma cap_shape: "shape st ps \<Longrightarrow> connections_cap_reached st = Ret (length ps = MAX_CONNECTIONS)"
  using shape_nth [of st ps "MAX_CONNECTIONS - 1"] shape_length [of st ps]
  by (auto simp: connections_cap_reached_def shape_def MAX_CONNECTIONS_def)

lemma make_entry_loop_shape:
  "shape st ps \<Longrightarrow> length ps < MAX_CONNECTIONS \<Longrightarrow> i \<le> length ps \<Longrightarrow>
     make_entry_loop st c i = Ret (0, st\<lparr>conns := (conns st)[length ps := Some c]\<rparr>)"
proof (induction "length ps - i" arbitrary: i)
  case 0
  then have i: "i = length ps" by simp
  then show ?case
    using 0 shape_nth [of st ps i] shape_length [of st ps]
    by (subst make_entry_loop.simps) simp
next
  case (Suc n)
  then have lt: "i < length ps" by simp
  have nth: "conns st ! i = Some (ps ! i)"
    using shape_nth [OF Suc.prems(1), of i] lt Suc.prems(2) by simp
  have IH: "make_entry_loop st c (Suc i) = Ret (0, st\<lparr>conns := (conns st)[length ps := Some c]\<rparr>)"
    using Suc.hyps(1) [of "Suc i"] Suc.hyps(2) Suc.prems lt by simp
  show ?case
    using nth IH lt Suc.prems(2) shape_length [OF Suc.prems(1)]
    by (simp add: make_entry_loop.simps [of st c i])
qed

lemma shape_extend:
  assumes "shape st ps" and "length ps < MAX_CONNECTIONS"
  shows "shape (st'\<lparr>conns := (conns st)[length ps := Some c]\<rparr>) (ps @ [c])"
proof -
  define n where "n = MAX_CONNECTIONS - Suc (length ps)"
  have n: "Suc MAX_CONNECTIONS - length ps = Suc (Suc n)"
    "Suc MAX_CONNECTIONS - length (ps @ [c]) = Suc n"
    using assms(2) by (simp_all add: n_def)
  have "conns st = map Some ps @ None # replicate (Suc n) None"
    using assms(1) n(1) by (simp add: shape_def)
  then have "(conns st)[length ps := Some c] = map Some ps @ Some c # replicate (Suc n) None"
    using list_update_length [of "map Some ps" None "replicate (Suc n) None" "Some c"] by simp
  then show ?thesis
    using assms(2) n(2) unfolding shape_def by simp
qed


lemma same_view_refl: "same_view st st"
  by (simp add: same_view_def)

lemma same_view_trans: "same_view st st1 \<Longrightarrow> same_view st1 st2 \<Longrightarrow> same_view st st2"
  by (simp add: same_view_def)

lemma same_view_live:
  assumes "same_view st st'"
  shows "registered st' = registered st" and "live_connections st' = live_connections st"
    and "live_servers st' = live_servers st"
proof -
  have srv: "map_option server (heap st' q) = map_option server (heap st q)" for q
    using assms by (simp add: same_view_def)
  have none: "heap st' q \<noteq> None \<longleftrightarrow> heap st q \<noteq> None" for q
    using srv [of q] by (cases "heap st' q"; cases "heap st q") simp_all
  have the: "heap st q \<noteq> None \<Longrightarrow> server (the (heap st' q)) = server (the (heap st q))" for q
    using srv [of q] by (cases "heap st' q"; cases "heap st q") simp_all
  show r: "registered st' = registered st"
    using assms by (simp add: same_view_def registered_def)
  show l: "live_connections st' = live_connections st"
    unfolding live_connections_def r using none by (intro filter_cong) blast+
  show "live_servers st' = live_servers st"
    unfolding live_servers_def l by (rule map_cong) (auto simp: live_connections_def the)
qed

lemma same_view_emit: "same_view st (emit e st)"
  by (simp add: same_view_def emit_def)

lemma irc_push_string_view: "irc_push_string st s str = Ret st' \<Longrightarrow> same_view st st'"
  by (auto simp: irc_push_string_def same_view_def split: result.splits option.splits)

lemma irc_write_bytes_view: "irc_write_bytes st s buf n = Ret (r, st') \<Longrightarrow> same_view st st'"
  by (auto simp: irc_write_bytes_def same_view_def emit_def Let_def
           split: result.splits option.splits if_splits)

lemma handle_message_view: "handle_message pa st conn m = Ret st' \<Longrightarrow> same_view st st'"
  by (auto simp: handle_message_def same_view_def emit_def Let_def
           split: prod.splits option.splits if_splits)

lemma drain_write_view: "irc_process_write_message_queue st conn = Ret st' \<Longrightarrow> same_view st st'"
proof (induction st conn rule: irc_process_write_message_queue.induct)
  case (1 st conn)
  note run = "1.prems" [unfolded irc_process_write_message_queue.simps [of st conn]]
  show ?case
  proof (cases "heap st conn")
    case None
    with run show ?thesis by simp
  next
    case (Some c)
    note h = this
    show ?thesis
    proof (cases "write_queue c")
      case Nil
      with run h show ?thesis by (simp add: same_view_refl)
    next
      case (Cons str nxt)
      note q = this
      show ?thesis
      proof (cases "irc_write_bytes st (server c) str (strlen str)")
        case (Ret v)
        obtain n st1 where v: "v = (n, st1)" by (cases v)
        note w = Ret [unfolded v]
        have hh: "heap st1 = heap st" by (rule irc_write_bytes_heap [OF w])
        then have h1: "heap st1 conn = Some c" using h by simp
        let ?st2 = "st1\<lparr>heap := (heap st1)(conn \<mapsto> c\<lparr>write_queue := nxt\<rparr>)\<rparr>"
        have r: "irc_process_write_message_queue ?st2 conn = Ret st'"
          using run h q w h1 by simp
        have v1: "same_view st st1" by (rule irc_write_bytes_view [OF w])
        have v2: "same_view st1 ?st2"
          using h1 by (simp add: same_view_def)
        have "same_view ?st2 st'"
          by (rule "1.IH" [OF h q w _ h1 r]) simp
        then show ?thesis
          using v1 v2 same_view_trans by blast
      next
        case (Exit n)
        with run h q show ?thesis by simp
      next
        case (Fault f)
        with run h q show ?thesis by simp
      qed
    qed
  qed
qed

lemma drain_read_view:
  "irc_process_read_message_queue pa st conn = Ret st' \<Longrightarrow> same_view st st'"
proof (induction pa st conn rule: irc_process_read_message_queue.induct)
  case (1 pa st conn)
  note run = "1.prems" [unfolded irc_process_read_message_queue.simps [of pa st conn]]
  show ?case
  proof (cases "heap st conn")
    case None
    with run show ?thesis by simp
  next
    case (Some c)
    note h = this
    show ?thesis
    proof (cases "read_queue c")
      case Nil
      with run h show ?thesis by (simp add: same_view_refl)
    next
      case (Cons m nxt)
      note q = this
      show ?thesis
      proof (cases "handle_message pa st conn m")
        case (Ret st1)
        note w = this
        have hh: "heap st1 = heap st" by (rule handle_message_heap [OF w])
        then have h1: "heap st1 conn = Some c" using h by simp
        let ?st2 = "st1\<lparr>heap := (heap st1)(conn \<mapsto> c\<lparr>read_queue := nxt\<rparr>)\<rparr>"
        have r: "irc_process_read_message_queue pa ?st2 conn = Ret st'"
          using run h q w h1 by simp
        have v1: "same_view st st1" by (rule handle_message_view [OF w])
        have v2: "same_view st1 ?st2"
          using h1 by (simp add: same_view_def)
        have "same_view ?st2 st'"
          by (rule "1.IH" [OF h q w h1 r])
        then show ?thesis
          using v1 v2 same_view_trans by blast
      next
        case (Exit n)
        with run h q show ?thesis by simp
      next
        case (Fault f)
        with run h q show ?thesis by simp
      qed
    qed
  qed
qed

lemma event_loop_enter_view: "irc_do_event_loop_enter st s = Ret st' \<Longrightarrow> same_view st st'"
  by (auto simp: irc_do_event_loop_enter_def same_view_def split: result.splits option.splits)

lemma read_callback_view:
  "irc_loop_read_callback st w mem roomy stream = Ret (st', rest) \<Longrightarrow> same_view st st'"
  by (auto simp: irc_loop_read_callback_def same_view_def emit_def Let_def
           split: result.splits option.splits if_splits)


lemma sys_call_store: "sys_call r st = (v, st') \<Longrightarrow> same_store st st'"
  by (auto simp: sys_call_def same_store_def split: sys_res.splits)

lemma create_socket_loop_store:
  "create_socket_loop script st ai sock conn = Some (v, st') \<Longrightarrow> same_store st st'"
proof (induction script st ai sock conn rule: create_socket_loop.induct)
  case (1 script st sock conn)
  then show ?case by (simp add: same_store_def)
next
  case (2 st a ai sock conn)
  then show ?case by (simp add: same_store_def split: if_splits)
next
  case (3 sres cres script st a ai sock conn)
  show ?case
  proof (cases "conn = - 1")
    case False
    with "3.prems" show ?thesis by (simp add: same_store_def)
  next
    case True
    obtain sock1 st1 where s1: "sys_call sres st = (sock1, st1)" by (cases "sys_call sres st")
    let ?st2 = "emit (Sys_socket a sock1) st1"
    obtain conn1 st3 where s3: "sys_call cres ?st2 = (conn1, st3)" by (cases "sys_call cres ?st2")
    let ?st4 = "emit (Sys_connect sock1 a conn1) st3"
    have f1: "same_store st st1" by (rule sys_call_store [OF s1])
    have f3: "same_store ?st2 st3" by (rule sys_call_store [OF s3])
    show ?thesis
    proof (cases "sock1 = - 1")
      case True
      have "same_store (emit (Diag ''client: socket'') ?st2) st'"
        using "3.IH"(1) [OF \<open>conn = - 1\<close> s1 [symmetric] refl refl True] "3.prems" \<open>conn = - 1\<close> s1 True
        by simp
      then show ?thesis
        using f1 by (simp add: same_store_def emit_def)
    next
      case False
      note sk = this
      show ?thesis
      proof (cases "conn1 = - 1 \<or> errno ?st4 \<noteq> 0")
        case True
        have "same_store ((emit (Sys_close sock1) ?st4)\<lparr>errno := 0\<rparr>) st'"
          using "3.IH"(2) [OF \<open>conn = - 1\<close> s1 [symmetric] refl refl sk s3 [symmetric] refl refl True]
            "3.prems" \<open>conn = - 1\<close> s1 s3 sk True
          by simp
        then show ?thesis
          using f1 f3 by (simp add: same_store_def emit_def)
      next
        case False
        have "same_store ?st4 st'"
          using "3.IH"(3) [OF \<open>conn = - 1\<close> s1 [symmetric] refl refl sk s3 [symmetric] refl refl False]
            "3.prems" \<open>conn = - 1\<close> s1 s3 sk False
          by simp
        then show ?thesis
          using f1 f3 by (simp add: same_store_def emit_def)
      qed
    qed
  qed
qed

lemma irc_create_socket_store:
  "irc_create_socket env st s = Some (Ret (sock, st')) \<Longrightarrow> same_store st st'"
  by (auto simp: irc_create_socket_def split: if_splits dest: create_socket_loop_store)

lemma handshake_loop_store: "handshake_loop rets sock st = Some st' \<Longrightarrow> same_store st st'"
proof (induction rets arbitrary: st)
  case Nil
  then show ?case by simp
next
  case (Cons ret rets)
  show ?case
  proof (cases "ret = GNUTLS_E_INTERRUPTED \<or> ret = GNUTLS_E_AGAIN")
    case True
    then have "same_store (emit (Gnutls_handshake sock ret) st) st'"
      using Cons.IH [of "emit (Gnutls_handshake sock ret) st"] Cons.prems by (simp add: Let_def)
    then show ?thesis by (simp add: same_store_def emit_def)
  next
    case False
    then show ?thesis
      using Cons.prems by (auto simp: Let_def same_store_def emit_def)
  qed
qed

lemma encrypt_store: "encrypt_irc_connection env st c = Some (Ret st') \<Longrightarrow> same_store st st'"
  by (auto simp: encrypt_irc_connection_def split: option.splits dest: handshake_loop_store)

lemma verify_socket_store: "verify_socket env st sock = Ret (v, st') \<Longrightarrow> same_store st st'"
  by (auto simp: verify_socket_def Let_def same_store_def emit_def split: if_splits)


lemma shape_conns: "conns st' = conns st \<Longrightarrow> shape st' ps = shape st ps"
  by (simp add: shape_def)

lemma setup_irc_connection_cases:
  assumes run: "setup_irc_connection env st s sock = Some (Ret (ret, st'))"
    and sh: "shape st ps" and room: "length ps < MAX_CONNECTIONS"
  shows "ret = 1 \<or>
         (ret = 0 \<and> (\<exists>pn cn. malloc_conn env = Some pn \<and> server cn = s
            \<and> conns st' = (conns st)[length ps := Some pn] \<and> heap st' = (heap st)(pn \<mapsto> cn)))"
proof (cases "malloc_conn env")
  case None
  with run show ?thesis
    by (simp add: setup_irc_connection_def create_irc_connection_def)
next
  case (Some pn)
  let ?cn = "\<lparr>server = s, socket = sock, ev_is_running = None, read_queue = [], write_queue = []\<rparr>"
  let ?st1 = "st\<lparr>heap := (heap st)(pn \<mapsto> ?cn)\<rparr>"
  let ?st2 = "?st1\<lparr>conns := (conns ?st1)[length ps := Some pn]\<rparr>"
  have sh1: "shape ?st1 ps" using sh by (simp add: shape_def)
  have entry: "make_irc_connection_entry ?st1 pn = Ret (0, ?st2)"
    unfolding make_irc_connection_entry_def
    by (rule make_entry_loop_shape [OF sh1 room]) simp
  define K :: "irc_state \<Rightarrow> (int \<times> irc_state) result option" where "K = (\<lambda>st3. case heap st3 pn of
                       None \<Rightarrow> Some (Fault Dangling_deref)
                     | Some cn \<Rightarrow>
                         if setnonblock env (socket cn) = - 1 then Some (Exit EXIT_FAILURE)
                         else
                           (case verify_socket env st3 sock of
                              Exit n \<Rightarrow> Some (Exit n)
                            | Fault f \<Rightarrow> Some (Fault f)
                            | Ret (v, st4) \<Rightarrow> Some (Ret (0 :: int, st4))))"
  have tail: "(case (if secure (servers ?st2 s)
                      then encrypt_irc_connection env (emit (Diag ''Encrypting connection'') ?st2) pn
                      else Some (Ret ?st2)) of
                  None \<Rightarrow> None
                | Some (Exit n) \<Rightarrow> Some (Exit n)
                | Some (Fault f) \<Rightarrow> Some (Fault f)
                | Some (Ret st3) \<Rightarrow> K st3) = Some (Ret (ret, st'))"
    using run unfolding setup_irc_connection_def create_irc_connection_def Some K_def
    by (simp only: option.case prod.case entry result.case)
  obtain st3 where st3: "same_store ?st2 st3" and rest: "K st3 = Some (Ret (ret, st'))"
  proof (cases "secure (servers ?st2 s)")
    case False
    have "same_store ?st2 ?st2" by (simp add: same_store_def)
    moreover have "K ?st2 = Some (Ret (ret, st'))"
      using tail False by (simp only: if_False option.case result.case)
    ultimately show ?thesis by (rule that)
  next
    case True
    have t: "(case encrypt_irc_connection env (emit (Diag ''Encrypting connection'') ?st2) pn of
                  None \<Rightarrow> None
                | Some (Exit n) \<Rightarrow> Some (Exit n)
                | Some (Fault f) \<Rightarrow> Some (Fault f)
                | Some (Ret st3) \<Rightarrow> K st3) = Some (Ret (ret, st'))"
      using tail True by (simp only: if_True)
    then obtain st3 where e: "encrypt_irc_connection env (emit (Diag ''Encrypting connection'') ?st2) pn = Some (Ret st3)"
      and k: "K st3 = Some (Ret (ret, st'))"
      by (auto split: option.splits result.splits)
    have "same_store (emit (Diag ''Encrypting connection'') ?st2) st3"
      by (rule encrypt_store [OF e])
    then have "same_store ?st2 st3" by (simp add: same_store_def emit_def)
    then show ?thesis using k by (rule that)
  qed
  from rest obtain v where ver: "verify_socket env st3 sock = Ret (v, st')" and r0: "ret = 0"
    unfolding K_def by (auto split: option.splits if_splits result.splits)
  have "same_store st3 st'" by (rule verify_socket_store [OF ver])
  with st3 have "conns st' = (conns st)[length ps := Some pn]" "heap st' = (heap st)(pn \<mapsto> ?cn)"
    by (simp_all add: same_store_def)
  moreover have "server ?cn = s" by simp
  ultimately show ?thesis using Some r0 by blast
qed

lemma connect_cases:
  assumes run: "irc_server_connect env st s = Some (Ret (r, st'))" and sh: "shape st ps"
  shows "(r = - 1 \<and> (\<exists>m. st' = emit (Diag m) st)) \<or>
         (r = 0 \<and> scan (heap st) s ps = Ret None \<and> length ps < MAX_CONNECTIONS
          \<and> (\<exists>pn cn. malloc_conn env = Some pn \<and> server cn = s
                \<and> conns st' = (conns st)[length ps := Some pn] \<and> heap st' = (heap st)(pn \<mapsto> cn)))"
proof (cases "scan (heap st) s ps")
  case (Ret found)
  show ?thesis
  proof (cases found)
    case (Some p)
    with run Ret sh show ?thesis
      by (auto simp: irc_server_connect_def server_connected_def lookup_scan)
  next
    case None
    note notfound = Ret [unfolded None]
    show ?thesis
    proof (cases "length ps = MAX_CONNECTIONS")
      case True
      with run notfound sh show ?thesis
        by (auto simp: irc_server_connect_def server_connected_def lookup_scan cap_shape)
    next
      case False
      then have room: "length ps < MAX_CONNECTIONS" using sh by (simp add: shape_def)
      from run notfound sh False obtain sock st1 where
        cs: "irc_create_socket env st s = Some (Ret (sock, st1))" and
        su: "(if sock = - 1 then Some (Exit 1)
              else
                (case setup_irc_connection env st1 s sock of
                         None \<Rightarrow> None
                       | Some (Exit n) \<Rightarrow> Some (Exit n)
                       | Some (Fault f) \<Rightarrow> Some (Fault f)
                       | Some (Ret (ret, st2)) \<Rightarrow>
                           if ret = 1 then Some (Exit 1)
                           else if ret \<noteq> 0 then Some (Exit EXIT_FAILURE)
                           else Some (Ret (0, st2)))) = Some (Ret (r, st'))"
        by (auto simp: irc_server_connect_def server_connected_def lookup_scan cap_shape
                 split: option.splits result.splits)
      have f1: "same_store st st1" by (rule irc_create_socket_store [OF cs])
      then have sh1: "shape st1 ps" using sh by (simp add: same_store_def shape_def)
      from su obtain ret where stp: "setup_irc_connection env st1 s sock = Some (Ret (ret, st'))"
        and ret: "ret \<noteq> 1" "ret = 0" and r: "r = 0"
        by (auto split: option.splits result.splits if_splits)
      from setup_irc_connection_cases [OF stp sh1 room] ret f1
      show ?thesis
        using r notfound room by (auto simp: same_store_def)
    qed
  qed
next
  case (Exit n)
  with run sh show ?thesis
    by (simp add: irc_server_connect_def server_connected_def lookup_scan)
next
  case (Fault f)
  with run sh show ?thesis
    by (simp add: irc_server_connect_def server_connected_def lookup_scan)
qed


lemma registry_inv_start: "registry_inv (init_state srv e)"
proof -
  have "registered (init_state srv e) = []"
    by (simp add: registered_def init_state_def)
  then show ?thesis
    by (simp add: registry_inv_def shape_def live_servers_def live_connections_def init_state_def)
qed

lemma registry_inv_view: "registry_inv st \<Longrightarrow> same_view st st' \<Longrightarrow> registry_inv st'"
  using same_view_live [of st st'] shape_conns [of st' st]
  by (simp add: registry_inv_def same_view_def)

lemma registry_inv_connect:
  assumes inv: "registry_inv st"
    and fresh: "\<forall>p. malloc_conn env = Some p \<longrightarrow> heap st p = None"
    and run: "irc_server_connect env st s = Some (Ret (r, st'))"
  shows "registry_inv st'"
proof -
  define ps where "ps = registered st"
  have sh: "shape st ps" using inv by (simp add: registry_inv_def ps_def)
  from connect_cases [OF run sh] show ?thesis
  proof (elim disjE conjE exE)
    fix m assume "st' = emit (Diag m) st"
    then show ?thesis using inv registry_inv_view same_view_emit by blast
  next
    fix pn cn
    assume none: "scan (heap st) s ps = Ret None" and room: "length ps < MAX_CONNECTIONS"
      and m: "malloc_conn env = Some pn" and cn: "server cn = s"
      and c': "conns st' = (conns st)[length ps := Some pn]"
      and h': "heap st' = (heap st)(pn \<mapsto> cn)"
    have "st'\<lparr>conns := (conns st)[length ps := Some pn]\<rparr> = st'"
      using c' by simp
    then have sh': "shape st' (ps @ [pn])"
      using shape_extend [OF sh room, where st' = st' and c = pn] by simp
    then have reg': "registered st' = ps @ [pn]" by (rule shape_registered)
    have old: "\<exists>c. heap st p = Some c \<and> server c \<noteq> s" if "p \<in> set ps" for p
      using scan_none [OF none that] .
    have "heap st pn = None" using fresh m by simp
    then have notin: "pn \<notin> set ps" using old by force
    have keep: "heap st' p = heap st p" if "p \<in> set ps" for p
      using that notin h' by auto
    have live: "live_connections st = ps"
      unfolding live_connections_def ps_def [symmetric] using old by (auto simp: filter_id_conv)
    have live': "live_connections st' = ps @ [pn]"
      unfolding live_connections_def reg' using old keep h' by (auto simp: filter_id_conv)
    have ls: "live_servers st' = live_servers st @ [s]"
      unfolding live_servers_def live live' using keep h' cn by simp
    have "s \<notin> set (live_servers st)"
      unfolding live_servers_def live using old by force
    then have "distinct (live_servers st')"
      using inv ls by (simp add: registry_inv_def)
    then show ?thesis
      using sh' reg' by (simp add: registry_inv_def)
  qed
qed

lemma quit_heap:
  assumes "quit_irc_connection serialize st s = Ret st'"
  shows "conns st' = conns st \<and>
         (\<exists>p. \<forall>q. map_option server (heap st' q) =
                  (if q = p then None else map_option server (heap st q)))"
proof -
  from assms obtain p st1 c where
    push: "irc_push_string st s (serialize quit_msg) = Ret st1" and h1: "heap st1 p = Some c"
    and st': "st' = (emit (Sys_close (socket c)) (emit Gnutls_global_deinit
               (emit Gnutls_certificate_free_credentials (emit (Gnutls_deinit (socket c))
                 (st1\<lparr>heap := (heap st1)(p \<mapsto> c\<lparr>ev_is_running := Some False\<rparr>)\<rparr>)))))
               \<lparr>heap := (heap st1)(p := None)\<rparr>"
    by (auto simp: quit_irc_connection_def irc_push_message_def Let_def emit_def
             split: result.splits option.splits)
  have v: "same_view st st1" by (rule irc_push_string_view [OF push])
  have "conns st' = conns st"
    using v st' by (simp add: same_view_def emit_def)
  moreover have "\<forall>q. map_option server (heap st' q) =
                  (if q = p then None else map_option server (heap st q))"
    using v st' by (simp add: same_view_def emit_def)
  ultimately show ?thesis by blast
qed

lemma registry_inv_quit:
  assumes inv: "registry_inv st" and run: "quit_irc_connection serialize st s = Ret st'"
  shows "registry_inv st'"
proof -
  from quit_heap [OF run] obtain p where c': "conns st' = conns st"
    and h': "\<And>q. map_option server (heap st' q) =
                  (if q = p then None else map_option server (heap st q))"
    by blast
  have reg: "registered st' = registered st" using c' by (simp add: registered_def)
  have none: "heap st' q \<noteq> None \<longleftrightarrow> q \<noteq> p \<and> heap st q \<noteq> None" for q
    using h' [of q] by (cases "heap st' q"; cases "heap st q") (simp_all split: if_splits)
  have the: "q \<noteq> p \<Longrightarrow> heap st q \<noteq> None \<Longrightarrow>
               server (the (heap st' q)) = server (the (heap st q))" for q
    using h' [of q] by (cases "heap st' q"; cases "heap st q") simp_all
  have live: "live_connections st' = filter (\<lambda>q. q \<noteq> p) (live_connections st)"
    unfolding live_connections_def reg filter_filter using none by (intro filter_cong) auto
  have "live_servers st' =
          map (\<lambda>q. server (the (heap st q))) (filter (\<lambda>q. q \<noteq> p) (live_connections st))"
    unfolding live_servers_def live
    by (rule map_cong) (auto simp: live_connections_def the)
  then have "distinct (live_servers st')"
    using inv by (simp add: registry_inv_def live_servers_def distinct_map_filter)
  then show ?thesis
    using inv reg c' shape_conns [of st' st] by (simp add: registry_inv_def)
qed

lemma reachable_inv: "reachable st \<Longrightarrow> registry_inv st"
proof (induction rule: reachable.induct)
  case (start srv e)
  show ?case by (rule registry_inv_start)
next
  case (connect st env s r st')
  then show ?case using registry_inv_connect by blast
next
  case (push st s str st')
  then show ?case using registry_inv_view irc_push_string_view by blast
next
  case (drain_write st conn st')
  then show ?case using registry_inv_view drain_write_view by blast
next
  case (drain_read st pa conn st')
  then show ?case using registry_inv_view drain_read_view by blast
next
  case (read_callback st w mem roomy stream st' rest)
  then show ?case using registry_inv_view read_callback_view by blast
next
  case (event_loop st s st')
  then show ?case using registry_inv_view event_loop_enter_view by blast
next
  case (quit st serialize s st')
  then show ?case using registry_inv_quit by blast
next
  case (library_call st e)
  have "same_view st (st\<lparr>errno := e\<rparr>)" by (simp add: same_view_def)
  with library_call show ?case using registry_inv_view by blast
qed

lemma filter_full: "length (filter P xs) = length xs \<Longrightarrow> x \<in> set xs \<Longrightarrow> P x"
  using sum_length_filter_compl [of P xs] by (auto simp: filter_empty_conv)

lemma count_list_distinct: "distinct xs \<Longrightarrow> x \<in> set xs \<Longrightarrow> count_list xs x = 1"
  by (induction xs) (auto simp: count_list_0_iff)


lemma reachable_connect_all: "reachable st \<Longrightarrow> reachable (connect_all ks st)"
proof (induction ks arbitrary: st)
  case Nil
  then show ?case by simp
next
  case (Cons k ks)
  show ?case
  proof (cases "heap st (100 + k) = None")
    case False
    with Cons.prems show ?thesis by auto
  next
    case True
    then have fresh: "\<forall>p. malloc_conn (example_env k) = Some p \<longrightarrow> heap st p = None"
      by (simp add: example_env_def)
    show ?thesis
    proof (cases "irc_server_connect (example_env k) st k")
      case None
      with Cons.prems True show ?thesis by simp
    next
      case (Some res)
      show ?thesis
      proof (cases res)
        case (Ret v)
        obtain r st' where v: "v = (r, st')" by (cases v)
        have "reachable st'"
          using reachable.connect [OF Cons.prems fresh] Some Ret v by simp
        then have "reachable (connect_all ks st')" by (rule Cons.IH)
        then show ?thesis using True Some Ret v by simp
      next
        case (Exit n)
        with Cons.prems True Some show ?thesis by simp
      next
        case (Fault f)
        with Cons.prems True Some show ?thesis by simp
      qed
    qed
  qed
qed

lemma reachable_full_state: "reachable full_state"
  unfolding full_state_def by (rule reachable_connect_all) (rule reachable.start)

lemma full_state_live: "length (live_connections full_state) = MAX_CONNECTIONS"
  by code_simp

lemma full_state_7: "server_connected full_state 7 = Ret True"
  by code_simp

lemma full_state_11: "server_connected full_state 11 = Ret False"
  by code_simp

text \<open>
  C3. In every reachable state the registry holds at most \<^verbatim>\<open>MAX_CONNECTIONS\<close> (10)
  entries, hence at most that many live connections; and when it holds that many live
  connections, every connect attempt, for any server and whatever the network would
  answer, returns \<open>- 1\<close> having done nothing but write a log line: no socket call, no
  allocation, no change of the registry.
\<close>

theorem registry_never_exceeds_cap:
  assumes "reachable st"
  shows "length (registered st) \<le> MAX_CONNECTIONS
       \<and> length (live_connections st) \<le> MAX_CONNECTIONS
       \<and> (length (live_connections st) = MAX_CONNECTIONS \<longrightarrow>
            irc_server_connect env st s =
              Some (Ret (- 1, emit (Diag (if server_connected st s = Ret True
                                          then ''Server already connected''
                                          else ''To Many Connections'')) st)))"
proof -
  define ps where "ps = registered st"
  have sh: "shape st ps"
    using reachable_inv [OF assms] by (simp add: registry_inv_def ps_def)
  then have len: "length ps \<le> MAX_CONNECTIONS" by (simp add: shape_def)
  have live_le: "length (live_connections st) \<le> length ps"
    by (simp add: live_connections_def ps_def)
  have full: "irc_server_connect env st s =
              Some (Ret (- 1, emit (Diag (if server_connected st s = Ret True
                                          then ''Server already connected''
                                          else ''To Many Connections'')) st))"
    if cap: "length (live_connections st) = MAX_CONNECTIONS"
  proof -
    have lps: "length ps = MAX_CONNECTIONS" using cap live_le len by simp
    then have "length (filter (\<lambda>p. heap st p \<noteq> None) ps) = length ps"
      using cap by (simp add: live_connections_def ps_def)
    then have "\<forall>p \<in> set ps. heap st p \<noteq> None"
      using filter_full [of "\<lambda>p. heap st p \<noteq> None" ps] by blast
    then obtain found where sc: "scan (heap st) s ps = Ret found"
      using scan_live by blast
    show ?thesis
      using sc lps lookup_scan [OF sh, of s] cap_shape [OF sh]
      by (cases found) (simp_all add: irc_server_connect_def server_connected_def)
  qed
  show ?thesis
    using len live_le full by (simp add: ps_def)
qed

theorem registry_never_exceeds_cap_witness:
  "reachable full_state
   \<and> length (live_connections full_state) = MAX_CONNECTIONS
   \<and> irc_server_connect (example_env 11) full_state 11 =
       Some (Ret (- 1, emit (Diag ''To Many Connections'') full_state))"
  using registry_never_exceeds_cap [OF reachable_full_state, of "example_env 11" 11]
    reachable_full_state full_state_live full_state_11
  by simp

lemma scan_finds:
  "\<forall>p \<in> set ps. h p \<noteq> None \<Longrightarrow> s \<in> (\<lambda>p. server (the (h p))) ` set ps \<Longrightarrow>
     \<exists>p. scan h s ps = Ret (Some p)"
  by (induction ps) (auto split: option.splits)

text \<open>
  As long as no registered connection has been freed, a server with a live connection is
  found by the lookup, a further connect attempt for it returns \<open>- 1\<close> having done
  nothing but write a log line, and the registry holds exactly one live connection for it.
\<close>

lemma second_connect_rejected_while_none_freed:
  assumes "reachable st" and "\<forall>p \<in> set (registered st). heap st p \<noteq> None"
    and "s \<in> set (live_servers st)"
  shows "server_connected st s = Ret True
       \<and> irc_server_connect env st s =
           Some (Ret (- 1, emit (Diag ''Server already connected'') st))
       \<and> count_list (live_servers (emit (Diag ''Server already connected'') st)) s = 1"
proof -
  define ps where "ps = registered st"
  have inv: "registry_inv st" by (rule reachable_inv [OF assms(1)])
  then have sh: "shape st ps" by (simp add: registry_inv_def ps_def)
  have "live_connections st = ps"
    using assms(2) by (simp add: live_connections_def ps_def)
  then have "s \<in> (\<lambda>p. server (the (heap st p))) ` set ps"
    using assms(3) by (simp add: live_servers_def)
  then obtain p where "scan (heap st) s ps = Ret (Some p)"
    using scan_finds [of ps "heap st" s] assms(2) by (auto simp: ps_def)
  then have found: "server_connected st s = Ret True"
    using lookup_scan [OF sh, of s] by (simp add: server_connected_def)
  have "distinct (live_servers st)"
    using inv by (simp add: registry_inv_def)
  then have "count_list (live_servers st) s = 1"
    using assms(3) by (simp add: count_list_distinct)
  moreover have "live_servers (emit (Diag ''Server already connected'') st) = live_servers st"
    using same_view_live(3) [OF same_view_emit] .
  ultimately show ?thesis
    using found by (simp add: irc_server_connect_def)
qed





end
